theory Spec2Isabelle
  imports Main "HOL-Library.Char_ord" "HOL-Library.List_Lexorder"
begin

section \<open>Characters and character classes\<close>

text \<open>
  A Python \<open>str\<close> is modelled as a \<open>string\<close> whose characters are the code points
  U+0000 .. U+00FF.  The three classes below are the restrictions of the classes of
  Python's \<open>re\<close> module (for \<open>str\<close> patterns) to that range; \<open>str.rstrip()\<close> strips
  exactly the characters of \<open>\s\<close>.
\<close>

definition LF :: char where
  "LF = CHR 0x0A"

definition CR :: char where
  "CR = CHR 0x0D"

definition isspace :: "char \<Rightarrow> bool" where
  "isspace c = (let n = (of_char c :: nat) in
       (9 \<le> n \<and> n \<le> 13) \<or> (28 \<le> n \<and> n \<le> 32) \<or> n = 133 \<or> n = 160)"

definition isdigit :: "char \<Rightarrow> bool" where
  "isdigit c = (let n = (of_char c :: nat) in 48 \<le> n \<and> n \<le> 57)"

definition isword :: "char \<Rightarrow> bool" where
  "isword c = (let n = (of_char c :: nat) in
       (48 \<le> n \<and> n \<le> 57) \<or> (65 \<le> n \<and> n \<le> 90) \<or> n = 95 \<or> (97 \<le> n \<and> n \<le> 122) \<or>
       n = 170 \<or> n = 178 \<or> n = 179 \<or> n = 181 \<or> n = 185 \<or> n = 186 \<or>
       (188 \<le> n \<and> n \<le> 190) \<or> (192 \<le> n \<and> n \<le> 214) \<or> (216 \<le> n \<and> n \<le> 246) \<or>
       (248 \<le> n \<and> n \<le> 255))"

section \<open>Regular expressions as the program writes them\<close>

text \<open>
  The four patterns of the program are sequences of the items below: anchors, one
  character of a class, a class repeated \<open>{n}\<close> times, \<open>*\<close>, \<open>+\<close>, the non-greedy
  \<open>+?\<close>, and the parentheses of a numbered group.  \<open>Dot\<close> is \<open>.\<close> without DOTALL: any
  character but the newline.  \<open>Eol\<close> is \<open>$\<close> without MULTILINE: the end of the string,
  or the position just before a newline that ends the string.
\<close>

datatype cls = Lit char | Digit | Space | Word | Dot | OneOf "char list"

fun in_cls :: "cls \<Rightarrow> char \<Rightarrow> bool" where
  "in_cls (Lit a) c = (c = a)"
| "in_cls Digit c = isdigit c"
| "in_cls Space c = isspace c"
| "in_cls Word c = isword c"
| "in_cls Dot c = (c \<noteq> LF)"
| "in_cls (OneOf cs) c = (c \<in> set cs)"

datatype item = Bol | Eol | One cls | Rep nat cls | Star cls | Plus cls | LazyPlus cls
  | Open nat | Close nat

type_synonym groups = "nat \<Rightarrow> string option"

text \<open>
  Backtracking, in the order of Python's matcher: a greedy repetition tries the longest
  run first and gives characters back one by one; a non-greedy one tries the shortest
  first.  \<open>k\<close> is the rest of the pattern.
\<close>

fun greedy :: "(char \<Rightarrow> bool) \<Rightarrow> (string \<Rightarrow> 'a option) \<Rightarrow> string \<Rightarrow> 'a option" where
  "greedy P k [] = k []"
| "greedy P k (c # cs) =
     (if P c then (case greedy P k cs of Some r \<Rightarrow> Some r | None \<Rightarrow> k (c # cs))
      else k (c # cs))"

fun lazy :: "(char \<Rightarrow> bool) \<Rightarrow> (string \<Rightarrow> 'a option) \<Rightarrow> string \<Rightarrow> 'a option" where
  "lazy P k [] = k []"
| "lazy P k (c # cs) =
     (case k (c # cs) of Some r \<Rightarrow> Some r | None \<Rightarrow> if P c then lazy P k cs else None)"

text \<open>
  \<open>rmatch p inp s m g\<close>: match the items \<open>p\<close> against the rest \<open>s\<close> of the input \<open>inp\<close>;
  \<open>m n\<close> is the rest of the input where group \<open>n\<close> was opened, \<open>g\<close> the groups closed
  so far.
\<close>

fun rmatch :: "item list \<Rightarrow> string \<Rightarrow> string \<Rightarrow> (nat \<Rightarrow> string) \<Rightarrow> groups \<Rightarrow> groups option" where
  "rmatch [] inp s m g = Some g"
| "rmatch (Bol # is) inp s m g = (if s = inp then rmatch is inp s m g else None)"
| "rmatch (Eol # is) inp s m g = (if s = [] \<or> s = [LF] then rmatch is inp s m g else None)"
| "rmatch (One c # is) inp s m g =
     (case s of [] \<Rightarrow> None | x # xs \<Rightarrow> if in_cls c x then rmatch is inp xs m g else None)"
| "rmatch (Rep n c # is) inp s m g =
     (if n \<le> length s \<and> list_all (in_cls c) (take n s) then rmatch is inp (drop n s) m g
      else None)"
| "rmatch (Star c # is) inp s m g = greedy (in_cls c) (\<lambda>s'. rmatch is inp s' m g) s"
| "rmatch (Plus c # is) inp s m g =
     (case s of [] \<Rightarrow> None
      | x # xs \<Rightarrow> if in_cls c x then greedy (in_cls c) (\<lambda>s'. rmatch is inp s' m g) xs else None)"
| "rmatch (LazyPlus c # is) inp s m g =
     (case s of [] \<Rightarrow> None
      | x # xs \<Rightarrow> if in_cls c x then lazy (in_cls c) (\<lambda>s'. rmatch is inp s' m g) xs else None)"
| "rmatch (Open n # is) inp s m g = rmatch is inp s (m(n := s)) g"
| "rmatch (Close n # is) inp s m g =
     rmatch is inp s m (g(n \<mapsto> take (length (m n) - length s) (m n)))"

text \<open>\<open>re.match(pattern, s)\<close>: \<open>None\<close>, or the groups of the first match at the start of \<open>s\<close>.\<close>

definition re_match :: "item list \<Rightarrow> string \<Rightarrow> groups option" where
  "re_match p s = rmatch p s s (\<lambda>_. []) (\<lambda>_. None)"

text \<open>\<^verbatim>\<open>^\[(\d{2}:\d{2}:\d{2})\]\s{2}(\w+):\s(.*)$\<close>\<close>

definition LOG_LINE_PATTERN :: "item list" where
  "LOG_LINE_PATTERN =
     [Bol, One (Lit CHR ''[''),
      Open 1, Rep 2 Digit, One (Lit CHR '':''), Rep 2 Digit, One (Lit CHR '':''), Rep 2 Digit, Close 1,
      One (Lit CHR '']''), Rep 2 Space,
      Open 2, Plus Word, Close 2, One (Lit CHR '':''), One Space,
      Open 3, Star Dot, Close 3, Eol]"

text \<open>\<^verbatim>\<open>^\[[:0-9]+\](\s{1})\w+.*$\<close>\<close>

definition ANNOUNCEMENT_LINE_PATTERN :: "item list" where
  "ANNOUNCEMENT_LINE_PATTERN =
     [Bol, One (Lit CHR ''[''), Plus (OneOf '':0123456789''), One (Lit CHR '']''),
      Open 1, Rep 1 Space, Close 1, Plus Word, Star Dot, Eol]"

text \<open>\<^verbatim>\<open>^(#).*$\<close>\<close>

definition COMMENT_LINE_PATTERN :: "item list" where
  "COMMENT_LINE_PATTERN = [Bol, Open 1, One (Lit CHR ''#''), Close 1, Star Dot, Eol]"

text \<open>\<^verbatim>\<open>^(.+?)-(\d{4}-\d{2}-\d{2})\.log$\<close>\<close>

definition FILE_NAME_PATTERN :: "item list" where
  "FILE_NAME_PATTERN =
     [Bol, Open 1, LazyPlus Dot, Close 1, One (Lit CHR ''-''),
      Open 2, Rep 4 Digit, One (Lit CHR ''-''), Rep 2 Digit, One (Lit CHR ''-''), Rep 2 Digit, Close 2,
      One (Lit CHR ''.''), One (Lit CHR ''l''), One (Lit CHR ''o''), One (Lit CHR ''g''), Eol]"

section \<open>Dates, times and \<open>strptime\<close>\<close>

datatype date = Date (year: nat) (month: nat) (day: nat)

datatype time = Time (hour: nat) (minute: nat) (second: nat)

text \<open>A naive \<open>datetime\<close>; the microsecond is 0 in every value the program builds.\<close>

datatype datetime =
  DateTime (dt_year: nat) (dt_month: nat) (dt_day: nat) (dt_hour: nat) (dt_minute: nat) (dt_second: nat)

definition date_of :: "datetime \<Rightarrow> date" where
  "date_of t = Date (dt_year t) (dt_month t) (dt_day t)"

definition time_of :: "datetime \<Rightarrow> time" where
  "time_of t = Time (dt_hour t) (dt_minute t) (dt_second t)"

definition combine :: "date \<Rightarrow> time \<Rightarrow> datetime" where
  "combine d t = DateTime (year d) (month d) (day d) (hour t) (minute t) (second t)"

datatype exn =
    FileNameFormatException
  | ParseLineException string
  | NonMessageLineException string
  | ValueError
  | UnicodeDecodeError
  | AssertionError
  | OSError

definition digit_val :: "char \<Rightarrow> nat" where
  "digit_val c = of_char c - 48"

definition digit_char :: "nat \<Rightarrow> char" where
  "digit_char n = char_of (48 + n)"

text \<open>\<open>int(s)\<close> on a string of decimal digits.\<close>

definition int_of :: "string \<Rightarrow> nat" where
  "int_of s = foldl (\<lambda>n c. 10 * n + digit_val c) 0 s"

definition is_leap :: "nat \<Rightarrow> bool" where
  "is_leap y = (y mod 4 = 0 \<and> (y mod 100 \<noteq> 0 \<or> y mod 400 = 0))"

definition days_in_month :: "nat \<Rightarrow> nat \<Rightarrow> nat" where
  "days_in_month y m =
     (if m = 2 then (if is_leap y then 29 else 28)
      else if m = 4 \<or> m = 6 \<or> m = 9 \<or> m = 11 then 30 else 31)"

text \<open>The checks of the \<open>date\<close> and \<open>datetime\<close> constructors (MINYEAR = 1, MAXYEAR = 9999).\<close>

definition valid_date :: "nat \<Rightarrow> nat \<Rightarrow> nat \<Rightarrow> bool" where
  "valid_date y m d =
     (1 \<le> y \<and> y \<le> 9999 \<and> 1 \<le> m \<and> m \<le> 12 \<and> 1 \<le> d \<and> d \<le> days_in_month y m)"

definition valid_time :: "nat \<Rightarrow> nat \<Rightarrow> nat \<Rightarrow> bool" where
  "valid_time h m s = (h \<le> 23 \<and> m \<le> 59 \<and> s \<le> 59)"

datatype directive = dY | dm | dd | dH | dM | dS

datatype fmt_item = Dir directive | FLit char

text \<open>
  A numeric directive of \<open>strptime\<close> takes two digits when they form a value it allows, and
  one digit otherwise (the library's alternatives, for instance \<^verbatim>\<open>2[0-3]|[0-1]\d|\d\<close>
  for \<^verbatim>\<open>%H\<close>).
\<close>

definition two_or_one :: "(nat \<Rightarrow> bool) \<Rightarrow> (nat \<Rightarrow> bool) \<Rightarrow> string \<Rightarrow> (nat \<times> string) option" where
  "two_or_one ok2 ok1 s =
     (if 2 \<le> length s \<and> list_all isdigit (take 2 s) \<and> ok2 (int_of (take 2 s))
      then Some (int_of (take 2 s), drop 2 s)
      else if 1 \<le> length s \<and> list_all isdigit (take 1 s) \<and> ok1 (int_of (take 1 s))
      then Some (int_of (take 1 s), drop 1 s)
      else None)"

fun field :: "directive \<Rightarrow> string \<Rightarrow> (nat \<times> string) option" where
  "field dY s =
     (if 4 \<le> length s \<and> list_all isdigit (take 4 s) then Some (int_of (take 4 s), drop 4 s)
      else None)"
| "field dm s = two_or_one (\<lambda>v. 1 \<le> v \<and> v \<le> 12) (\<lambda>v. 1 \<le> v) s"
| "field dd s =
     (case two_or_one (\<lambda>v. 1 \<le> v \<and> v \<le> 31) (\<lambda>v. 1 \<le> v) s of
        Some r \<Rightarrow> Some r
      | None \<Rightarrow>
          (if 2 \<le> length s \<and> hd s = CHR '' '' \<and> isdigit (s ! 1) \<and> 1 \<le> digit_val (s ! 1)
           then Some (digit_val (s ! 1), drop 2 s) else None))"
| "field dH s = two_or_one (\<lambda>v. v \<le> 23) (\<lambda>v. True) s"
| "field dM s = two_or_one (\<lambda>v. v \<le> 59) (\<lambda>v. True) s"
| "field dS s = two_or_one (\<lambda>v. v \<le> 61) (\<lambda>v. True) s"

fun strptime_fields ::
  "fmt_item list \<Rightarrow> string \<Rightarrow> (directive \<Rightarrow> nat option) \<Rightarrow> (directive \<Rightarrow> nat option) option" where
  "strptime_fields [] s v = (if s = [] then Some v else None)"
| "strptime_fields (FLit a # fs) s v =
     (case s of [] \<Rightarrow> None | c # cs \<Rightarrow> if c = a then strptime_fields fs cs v else None)"
| "strptime_fields (Dir d # fs) s v =
     (case field d s of None \<Rightarrow> None | Some (n, r) \<Rightarrow> strptime_fields fs r (v(d \<mapsto> n)))"

definition default :: "nat \<Rightarrow> nat option \<Rightarrow> nat" where
  "default n v = (case v of None \<Rightarrow> n | Some x \<Rightarrow> x)"

text \<open>
  \<open>datetime.datetime.strptime(s, fmt)\<close> for formats of the six directives above and
  literal punctuation.  Every failure is a \<open>ValueError\<close>: the string does not match the
  format, data remains after it, or the fields are not a date and a time (missing fields
  default to 1900-01-01 00:00:00).  Python reads a 29 February without a year as of 1904;
  neither format of the program has a month without a year.
\<close>

definition strptime :: "string \<Rightarrow> fmt_item list \<Rightarrow> exn + datetime" where
  "strptime s fmt =
     (case strptime_fields fmt s (\<lambda>_. None) of
        None \<Rightarrow> Inl ValueError
      | Some v \<Rightarrow>
          (let y = default 1900 (v dY); mo = default 1 (v dm); d = default 1 (v dd);
               h = default 0 (v dH); mi = default 0 (v dM); se = default 0 (v dS)
           in if valid_date y mo d \<and> valid_time h mi se then Inr (DateTime y mo d h mi se)
              else Inl ValueError))"

text \<open>\<^verbatim>\<open>"%H:%M:%S"\<close> and \<^verbatim>\<open>"%Y-%m-%d"\<close>\<close>

definition fmt_HMS :: "fmt_item list" where
  "fmt_HMS = [Dir dH, FLit CHR '':'', Dir dM, FLit CHR '':'', Dir dS]"

definition fmt_Ymd :: "fmt_item list" where
  "fmt_Ymd = [Dir dY, FLit CHR ''-'', Dir dm, FLit CHR ''-'', Dir dd]"

text \<open>\<open>str(n)\<close> for a natural number, and \<open>date.isoformat()\<close>, which is \<^verbatim>\<open>"%04d-%02d-%02d"\<close>.\<close>

function str_nat :: "nat \<Rightarrow> string" where
  "str_nat n = (if n < 10 then [digit_char n] else str_nat (n div 10) @ [digit_char (n mod 10)])"
  by pat_completeness auto
termination
  by (relation "measure (\<lambda>n. n)") auto

declare str_nat.simps [simp del]

definition zfill :: "nat \<Rightarrow> string \<Rightarrow> string" where
  "zfill w s = replicate (w - length s) CHR ''0'' @ s"

definition isoformat :: "date \<Rightarrow> string" where
  "isoformat d =
     zfill 4 (str_nat (year d)) @ ''-'' @ zfill 2 (str_nat (month d)) @ ''-'' @ zfill 2 (str_nat (day d))"

section \<open>The line classifier\<close>

record LineComponents =
  ts :: datetime
  user :: string
  msg :: string

definition parse_line :: "date \<Rightarrow> string \<Rightarrow> exn + LineComponents" where
  "parse_line date line =
     (case re_match LOG_LINE_PATTERN line of
        None \<Rightarrow>
          (if re_match ANNOUNCEMENT_LINE_PATTERN line \<noteq> None then Inl (NonMessageLineException line)
           else if re_match COMMENT_LINE_PATTERN line \<noteq> None then Inl (NonMessageLineException line)
           else Inl (ParseLineException (''Failed to parse line: '' @ [CHR 0x27] @ line @ [CHR 0x27])))
      | Some match \<Rightarrow>
          (case (match 1, match 2, match 3) of
             (Some time_str, Some username, Some message) \<Rightarrow>
               (case strptime time_str fmt_HMS of
                  Inl e \<Rightarrow> Inl e
                | Inr time_obj \<Rightarrow>
                    Inr \<lparr>ts = combine date (time_of time_obj), user = username, msg = message\<rparr>)
           | _ \<Rightarrow> Inl AssertionError))"

section \<open>The file-name parser\<close>

text \<open>\<open>os.path.basename\<close> and \<open>os.path.join\<close> of \<open>posixpath\<close>.\<close>

definition basename :: "string \<Rightarrow> string" where
  "basename p = rev (takeWhile (\<lambda>c. c \<noteq> CHR ''/'') (rev p))"

definition join :: "string \<Rightarrow> string \<Rightarrow> string" where
  "join a b =
     (if b \<noteq> [] \<and> hd b = CHR ''/'' then b
      else if a = [] \<or> last a = CHR ''/'' then a @ b
      else a @ ''/'' @ b)"

definition file_name_components :: "string \<Rightarrow> exn + (string \<times> date)" where
  "file_name_components path =
     (case re_match FILE_NAME_PATTERN (basename path) of
        None \<Rightarrow> Inl FileNameFormatException
      | Some match \<Rightarrow>
          (case (match 1, match 2) of
             (Some stream_name, Some date_str) \<Rightarrow>
               (case strptime date_str fmt_Ymd of
                  Inl e \<Rightarrow> Inl e
                | Inr d \<Rightarrow> Inr (stream_name, date_of d))
           | _ \<Rightarrow> Inl AssertionError))"

section \<open>Files and directories\<close>

text \<open>
  What \<open>open(path, "r")\<close> and reading the file to its end give: \<open>open\<close> raises
  \<open>OSError\<close>; or the file decodes to a text; or the decoder raises \<open>UnicodeDecodeError\<close>
  (a \<open>ValueError\<close> that no handler of the program catches) after the lines of the given
  text were read.
\<close>

datatype opened = OpenFails | Decoded string | DecodeFails string

text \<open>
  The file system the program reads: \<open>listdir\<close> (\<open>None\<close> is an \<open>OSError\<close>), \<open>isfile\<close>, and
  the files opened for reading.
\<close>

record filesystem =
  listdir :: "string \<Rightarrow> string list option"
  isfile :: "string \<Rightarrow> bool"
  read_text :: "string \<Rightarrow> opened"

text \<open>Text mode with universal newlines: \<^verbatim>\<open>\r\n\<close> and \<^verbatim>\<open>\r\<close> are read as \<^verbatim>\<open>\n\<close>.\<close>

fun translate_newlines :: "string \<Rightarrow> string" where
  "translate_newlines [] = []"
| "translate_newlines [c] = (if c = CR then [LF] else [c])"
| "translate_newlines (c # d # cs) =
     (if c = CR \<and> d = LF then LF # translate_newlines cs
      else if c = CR then LF # translate_newlines (d # cs)
      else c # translate_newlines (d # cs))"

text \<open>Iterating over the file yields its lines, each with its terminator.\<close>

fun split_lines :: "string \<Rightarrow> string \<Rightarrow> string list" where
  "split_lines cur [] = (if cur = [] then [] else [cur])"
| "split_lines cur (c # cs) =
     (if c = LF then (cur @ [c]) # split_lines [] cs else split_lines (cur @ [c]) cs)"

definition file_lines :: "string \<Rightarrow> string list" where
  "file_lines text = split_lines [] (translate_newlines text)"

text \<open>The lines read before a decoding failure: those that have their terminator.\<close>

definition complete_lines :: "string \<Rightarrow> string list" where
  "complete_lines text = filter (\<lambda>l. l \<noteq> [] \<and> last l = LF) (file_lines text)"

definition rstrip :: "string \<Rightarrow> string" where
  "rstrip s = rev (dropWhile isspace (rev s))"

datatype stream = Stdout | Stderr

type_synonym printed = "(stream \<times> string) list"

text \<open>
  The loop of \<open>parse_log\<close> over the lines, with the rows collected and the text printed
  so far.  An exception other than the two that are caught leaves the loop.
\<close>

fun parse_lines ::
  "date \<Rightarrow> string \<Rightarrow> string list \<Rightarrow> LineComponents list \<Rightarrow> printed
     \<Rightarrow> printed \<times> (exn + LineComponents list)" where
  "parse_lines date path [] rows out = (out, Inr rows)"
| "parse_lines date path (line # ls) rows out =
     (case parse_line date (rstrip line) of
        Inr r \<Rightarrow> parse_lines date path ls (rows @ [r]) out
      | Inl (ParseLineException e) \<Rightarrow>
          parse_lines date path ls rows (out @ [(Stdout, path @ '': '' @ e)])
      | Inl (NonMessageLineException l) \<Rightarrow> parse_lines date path ls rows out
      | Inl e \<Rightarrow> (out, Inl e))"

text \<open>A \<open>DataFrame\<close> with the columns ts, user, msg is the list of its rows.\<close>

definition parse_log :: "filesystem \<Rightarrow> string \<Rightarrow> printed \<times> (exn + LineComponents list)" where
  "parse_log fs path =
     (case file_name_components path of
        Inl e \<Rightarrow> ([], Inl e)
      | Inr (stream_name, date) \<Rightarrow>
          (case read_text fs path of
             OpenFails \<Rightarrow> ([], Inl OSError)
           | Decoded text \<Rightarrow> parse_lines date path (file_lines text) [] []
           | DecodeFails text \<Rightarrow>
               (case parse_lines date path (complete_lines text) [] [] of
                  (out, Inl e) \<Rightarrow> (out, Inl e)
                | (out, Inr rows) \<Rightarrow> (out, Inl UnicodeDecodeError))))"

text \<open>
  \<open>pandas.concat(frames, ignore_index=True)\<close>: the rows of the frames, one frame after
  the other; on an empty list pandas raises \<open>ValueError("No objects to concatenate")\<close>.
\<close>

definition pd_concat :: "LineComponents list list \<Rightarrow> exn + LineComponents list" where
  "pd_concat frames = (if frames = [] then Inl ValueError else Inr (concat frames))"

fun parse_files ::
  "filesystem \<Rightarrow> string list \<Rightarrow> LineComponents list list \<Rightarrow> printed
     \<Rightarrow> printed \<times> (exn + LineComponents list list)" where
  "parse_files fs [] frames out = (out, Inr frames)"
| "parse_files fs (file # files) frames out =
     (case parse_log fs file of
        (o1, Inr df) \<Rightarrow> parse_files fs files (frames @ [df]) (out @ o1)
      | (o1, Inl FileNameFormatException) \<Rightarrow>
          parse_files fs files frames
            (out @ o1 @ [(Stderr, ''File '' @ [CHR 0x27] @ file @ [CHR 0x27]
                                   @ '' does not conform to naming scheme. Skipping.'')])
      | (o1, Inl e) \<Rightarrow> (out @ o1, Inl e))"

definition parse_from_dir :: "filesystem \<Rightarrow> string \<Rightarrow> printed \<times> (exn + LineComponents list)" where
  "parse_from_dir fs path =
     (case listdir fs path of
        None \<Rightarrow> ([], Inl OSError)
      | Some names \<Rightarrow>
          (let files = sort (filter (isfile fs) (map (join path) names))
           in case parse_files fs files [] [] of
                (out, Inl e) \<Rightarrow> (out, Inl e)
              | (out, Inr frames) \<Rightarrow> (out, pd_concat frames)))"

section \<open>The records of a file and of a directory, as the specification describes them\<close>

text \<open>
  The records of one line: the record of the line when it is a message, none otherwise.
  The records of a file: those of its lines, in the order of the lines.  A file whose
  name has no date has no records.
\<close>

definition line_records :: "date \<Rightarrow> string \<Rightarrow> LineComponents list" where
  "line_records date line = (case parse_line date (rstrip line) of Inr r \<Rightarrow> [r] | Inl e \<Rightarrow> [])"

definition file_records :: "filesystem \<Rightarrow> string \<Rightarrow> LineComponents list" where
  "file_records fs file =
     (case file_name_components file of
        Inl e \<Rightarrow> []
      | Inr (stream_name, date) \<Rightarrow>
          (case read_text fs file of
             Decoded text \<Rightarrow> concat (map (line_records date) (file_lines text))
           | _ \<Rightarrow> []))"

text \<open>What \<open>os.path.join\<close> puts before a file name that has no slash.\<close>

definition dir_prefix :: "string \<Rightarrow> string" where
  "dir_prefix path = (if path = [] \<or> last path = CHR ''/'' then path else path @ ''/'')"

section \<open>Example directories\<close>

text \<open>A directory \<open>logs\<close> with one log file whose second line has minute 61.\<close>

definition fs_bad_minute :: filesystem where
  "fs_bad_minute =
     \<lparr>listdir = (\<lambda>p. if p = ''logs'' then Some [''chan-2023-05-13.log''] else None),
      isfile = (\<lambda>p. p = ''logs/chan-2023-05-13.log''),
      read_text = (\<lambda>p. if p = ''logs/chan-2023-05-13.log''
         then Decoded (''[03:25:34]  user23: lol'' @ [LF] @ ''[03:61:34]  user23: lol'' @ [LF]
                    @ ''[03:25:35]  user23: ok'' @ [LF])
         else OpenFails)\<rparr>"

text \<open>An empty directory \<open>logs\<close>, and a directory that holds only \<open>readme.txt\<close>.\<close>

definition fs_empty_dir :: filesystem where
  "fs_empty_dir =
     \<lparr>listdir = (\<lambda>p. if p = ''logs'' then Some [] else None),
      isfile = (\<lambda>p. False),
      read_text = (\<lambda>p. OpenFails)\<rparr>"

definition fs_only_readme :: filesystem where
  "fs_only_readme =
     \<lparr>listdir = (\<lambda>p. if p = ''logs'' then Some [''readme.txt''] else None),
      isfile = (\<lambda>p. p = ''logs/readme.txt''),
      read_text = (\<lambda>p. if p = ''logs/readme.txt'' then Decoded ''hello'' else OpenFails)\<rparr>"

text \<open>
  A directory \<open>logs\<close> listed out of order: two log files, a file \<open>readme.txt\<close> and a
  subdirectory \<open>old\<close>.  The first day has a comment, a message that ends in blanks and a
  tab, an announcement and a message that ends in CR LF.
\<close>

definition fs_two_days :: filesystem where
  "fs_two_days =
     \<lparr>listdir = (\<lambda>p. if p = ''logs''
         then Some [''readme.txt'', ''a-2023-01-02.log'', ''old'', ''a-2023-01-01.log''] else None),
      isfile = (\<lambda>p. p = ''logs/readme.txt'' \<or> p = ''logs/a-2023-01-02.log''
                     \<or> p = ''logs/a-2023-01-01.log''),
      read_text = (\<lambda>p.
         if p = ''logs/a-2023-01-01.log''
         then Decoded (''# Start logging'' @ [LF] @ ''[09:00:00]  alice: first day  '' @ [CHR 0x09, LF]
                    @ ''[09:00:01] Announcement'' @ [LF] @ ''[09:00:02]  bob: hi'' @ [CR, LF])
         else if p = ''logs/a-2023-01-02.log''
         then Decoded (''[10:00:00]  carol: second day'')
         else if p = ''logs/readme.txt'' then Decoded ''hello''
         else OpenFails)\<rparr>"

text \<open>A log file whose only line is a message with a tab as its whole text.\<close>

definition fs_blank_message :: filesystem where
  "fs_blank_message =
     \<lparr>listdir = (\<lambda>p. if p = ''logs'' then Some [''a-2023-01-01.log''] else None),
      isfile = (\<lambda>p. p = ''logs/a-2023-01-01.log''),
      read_text = (\<lambda>p. if p = ''logs/a-2023-01-01.log''
         then Decoded (''[09:00:00]  alice: '' @ [CHR 0x09, LF])
         else OpenFails)\<rparr>"

definition row_alice :: LineComponents where
  "row_alice = \<lparr>ts = DateTime 2023 1 1 9 0 0, user = ''alice'', msg = ''first day''\<rparr>"

definition row_bob :: LineComponents where
  "row_bob = \<lparr>ts = DateTime 2023 1 1 9 0 2, user = ''bob'', msg = ''hi''\<rparr>"

definition row_carol :: LineComponents where
  "row_carol = \<lparr>ts = DateTime 2023 1 2 10 0 0, user = ''carol'', msg = ''second day''\<rparr>"


section \<open>Character classes\<close>

lemma isdigit_isword: "isdigit c \<Longrightarrow> isword c"
  by (simp add: isdigit_def isword_def Let_def)

lemma isword_not_isspace: "isword c \<Longrightarrow> \<not> isspace c"
  by (auto simp add: isword_def isspace_def Let_def)

lemma isword_not_colon: "isword c \<Longrightarrow> c \<noteq> CHR '':''"
  by (auto simp add: isword_def Let_def)

lemma isspace_LF: "isspace LF"
  by (simp add: isspace_def LF_def)

lemma char_eq_code: "(c = d) = ((of_char c :: nat) = of_char d)"
  by simp

lemma isdigit_cases:
  "isdigit c \<Longrightarrow> c \<in> set ''0123456789''"
proof -
  assume "isdigit c"
  then have "48 \<le> (of_char c :: nat) \<and> (of_char c :: nat) \<le> 57" by (simp add: isdigit_def Let_def)
  then have "(of_char c :: nat) \<in> {48, 49, 50, 51, 52, 53, 54, 55, 56, 57}"
    by simp arith
  then show ?thesis by (simp add: char_eq_code[of c])
qed

lemma isdigit_in_set: "isdigit c \<Longrightarrow> c \<in> set '':0123456789''"
  using isdigit_cases[of c] by simp

section \<open>Backtracking\<close>

lemma greedy_stop:
  assumes "list_all P u" and "\<And>c cs. P c \<Longrightarrow> k (c # cs) = None" and "s = [] \<or> \<not> P (hd s)"
  shows "greedy P k (u @ s) = k s"
  using assms(1)
proof (induction u)
  case Nil
  from assms(3) show ?case by (cases s) auto
next
  case (Cons x u)
  then show ?case using assms(2)[of x "u @ s"] by (cases "k s") auto
qed

lemma greedy_all: "list_all P u \<Longrightarrow> greedy P k s = Some r \<Longrightarrow> greedy P k (u @ s) = Some r"
  by (induction u) auto

lemma greedy_not_None: "k s \<noteq> None \<Longrightarrow> greedy P k s \<noteq> None"
  by (cases s) (auto split: option.splits)

lemma greedy_inv:
  "greedy P k s = Some r \<Longrightarrow> \<exists>u v. s = u @ v \<and> list_all P u \<and> k v = Some r"
proof (induction s)
  case Nil
  then show ?case by auto
next
  case (Cons c cs)
  show ?case
  proof (cases "P c \<and> greedy P k cs = Some r")
    case True
    with Cons.IH obtain u v where "cs = u @ v" "list_all P u" "k v = Some r" by blast
    then have "c # cs = (c # u) @ v \<and> list_all P (c # u) \<and> k v = Some r" using True by simp
    then show ?thesis by blast
  next
    case False
    with Cons.prems have "k (c # cs) = Some r" by (auto split: if_splits option.splits)
    then have "c # cs = [] @ (c # cs) \<and> list_all P [] \<and> k (c # cs) = Some r" by simp
    then show ?thesis by blast
  qed
qed

lemma lazy_skip:
  assumes "list_all P u" and "\<And>w. w \<noteq> [] \<Longrightarrow> k (w @ s) = None" and "k s = Some r"
  shows "lazy P k (u @ s) = Some r"
  using assms(1)
proof (induction u)
  case Nil
  from assms(3) show ?case by (cases s) auto
next
  case (Cons x u)
  then show ?case using assms(2)[of "x # u"] by simp
qed

lemma lazy_inv:
  "lazy P k s = Some r \<Longrightarrow> \<exists>u v. s = u @ v \<and> list_all P u \<and> k v = Some r"
proof (induction s)
  case Nil
  then show ?case by auto
next
  case (Cons c cs)
  show ?case
  proof (cases "k (c # cs) = Some r")
    case True
    then have "c # cs = [] @ (c # cs) \<and> list_all P [] \<and> k (c # cs) = Some r" by simp
    then show ?thesis by blast
  next
    case False
    with Cons.prems have "P c \<and> lazy P k cs = Some r" by (auto split: if_splits option.splits)
    with Cons.IH obtain u v where "cs = u @ v" "list_all P u" "k v = Some r" "P c" by blast
    then have "c # cs = (c # u) @ v \<and> list_all P (c # u) \<and> k v = Some r" by simp
    then show ?thesis by blast
  qed
qed

lemma in_cls_eta [simp]:
  "in_cls Word = isword" "in_cls Digit = isdigit" "in_cls Space = isspace"
  "in_cls Dot = (\<lambda>c. c \<noteq> LF)"
  by (auto simp: fun_eq_iff)

lemma rmatch_Plus_stop:
  assumes "u \<noteq> []" and "list_all (in_cls c) u" and "s = [] \<or> \<not> in_cls c (hd s)"
    and "\<And>x xs. in_cls c x \<Longrightarrow> rmatch is inp (x # xs) m g = None"
  shows "rmatch (Plus c # is) inp (u @ s) m g = rmatch is inp s m g"
proof -
  from assms(1) obtain x u' where u: "u = x # u'" by (cases u) auto
  with assms(2) have "in_cls c x" "list_all (in_cls c) u'" by auto
  moreover have "greedy (in_cls c) (\<lambda>s'. rmatch is inp s' m g) (u' @ s) = rmatch is inp s m g"
    by (rule greedy_stop) (use assms \<open>list_all (in_cls c) u'\<close> in auto)
  ultimately show ?thesis by (simp add: u)
qed

lemma rmatch_Star_all:
  assumes "list_all (in_cls c) u" and "rmatch is inp [] m g = Some r"
  shows "rmatch (Star c # is) inp u m g = Some r"
  using greedy_all[of "in_cls c" u "\<lambda>s'. rmatch is inp s' m g" "[]" r] assms by simp

lemma take_length_diff [simp]: "take (length (u @ s) - length s) (u @ s) = u"
  by simp

lemmas rmatch_loops = rmatch.simps(6) rmatch.simps(7) rmatch.simps(8)

section \<open>The message pattern\<close>

lemma not_isword_colon [simp]: "\<not> isword CHR '':''"
  by (simp add: isword_def)

lemma rmatch_msg_tail:
  assumes "list_all (\<lambda>c. c \<noteq> LF) body" and "m 3 = body"
  shows "rmatch [Star Dot, Close 3, Eol] inp body m g = Some (g(3 \<mapsto> body))"
  by (rule rmatch_Star_all) (use assms in auto)

lemma log_line_match:
  assumes d: "isdigit h1" "isdigit h2" "isdigit m1" "isdigit m2" "isdigit s1" "isdigit s2"
    and w: "isspace w1" "isspace w2" "isspace w3"
    and u: "uname \<noteq> [] " "list_all isword uname"
    and t: "LF \<notin> set text"
  shows "\<exists>g. re_match LOG_LINE_PATTERN
           (''['' @ [h1, h2] @ '':'' @ [m1, m2] @ '':'' @ [s1, s2] @ '']'' @ [w1, w2]
              @ uname @ '':'' @ [w3] @ text) = Some g
         \<and> g 1 = Some ([h1, h2] @ '':'' @ [m1, m2] @ '':'' @ [s1, s2])
         \<and> g 2 = Some uname \<and> g 3 = Some text"
proof -
  have all: "list_all (\<lambda>c. c \<noteq> LF) text" using t by (simp add: list_all_iff) blast
  show ?thesis
    unfolding re_match_def LOG_LINE_PATTERN_def
    using d w u all
    apply (simp del: rmatch_loops)
    apply (subst rmatch_Plus_stop)
        apply (simp_all add: isword_not_colon del: rmatch_loops)
    apply (simp add: rmatch_msg_tail del: rmatch_loops)
    done
qed

lemma strptime_HMS:
  assumes "isdigit h1" "isdigit h2" "isdigit m1" "isdigit m2" "isdigit s1" "isdigit s2"
    and "int_of [h1, h2] \<le> 23" "int_of [m1, m2] \<le> 59" "int_of [s1, s2] \<le> 59"
  shows "strptime ([h1, h2] @ '':'' @ [m1, m2] @ '':'' @ [s1, s2]) fmt_HMS
           = Inr (DateTime 1900 1 1 (int_of [h1, h2]) (int_of [m1, m2]) (int_of [s1, s2]))"
  using assms
  by (simp add: strptime_def fmt_HMS_def two_or_one_def default_def valid_date_def valid_time_def
      days_in_month_def)

lemma parse_line_of_match:
  assumes "re_match LOG_LINE_PATTERN line = Some g"
    and "g 1 = Some t" "g 2 = Some u" "g 3 = Some b"
    and "strptime t fmt_HMS = Inr dt"
  shows "parse_line date line = Inr \<lparr>ts = combine date (time_of dt), user = u, msg = b\<rparr>"
  using assms by (simp add: parse_line_def)

lemma parse_line_message_general:
  assumes d: "isdigit h1" "isdigit h2" "isdigit m1" "isdigit m2" "isdigit s1" "isdigit s2"
    and v: "int_of [h1, h2] \<le> 23" "int_of [m1, m2] \<le> 59" "int_of [s1, s2] \<le> 59"
    and w: "isspace w1" "isspace w2" "isspace w3"
    and u: "uname \<noteq> []" "list_all isword uname"
    and t: "LF \<notin> set body"
  shows "parse_line date
           (''['' @ [h1, h2] @ '':'' @ [m1, m2] @ '':'' @ [s1, s2] @ '']'' @ [w1, w2]
              @ uname @ '':'' @ [w3] @ body)
         = Inr \<lparr>ts = combine date (Time (int_of [h1, h2]) (int_of [m1, m2]) (int_of [s1, s2])),
                user = uname, msg = body\<rparr>"
proof -
  from log_line_match[OF d w u t] obtain g where
    g: "re_match LOG_LINE_PATTERN
           (''['' @ [h1, h2] @ '':'' @ [m1, m2] @ '':'' @ [s1, s2] @ '']'' @ [w1, w2]
              @ uname @ '':'' @ [w3] @ body) = Some g"
       "g 1 = Some ([h1, h2] @ '':'' @ [m1, m2] @ '':'' @ [s1, s2])"
       "g 2 = Some uname" "g 3 = Some body"
    by blast
  show ?thesis
    using parse_line_of_match[OF g strptime_HMS[OF d v], of date]
    by (simp add: time_of_def)
qed

section \<open>The announcement pattern\<close>

lemma rmatch_Plus_not_None:
  assumes "in_cls c x" and "rmatch is inp s m g \<noteq> None"
  shows "rmatch (Plus c # is) inp (x # s) m g \<noteq> None"
  using assms greedy_not_None[of "\<lambda>s'. rmatch is inp s' m g" s "in_cls c"] by simp

lemma rmatch_rest_of_line:
  assumes "LF \<notin> set s"
  shows "rmatch [Star Dot, Eol] inp s m g = Some g"
proof -
  have "list_all (in_cls Dot) s" using assms by (simp add: list_all_iff) blast
  then show ?thesis by (rule rmatch_Star_all) simp
qed

lemma not_in_stamp_bracket [simp]: "CHR '']'' \<notin> set '':0123456789''"
  by simp

lemma log_line_no_match_single_space:
  assumes "\<not> isspace c"
  shows "re_match LOG_LINE_PATTERN
           (''['' @ [h1, h2] @ '':'' @ [m1, m2] @ '':'' @ [s1, s2] @ '']'' @ [w] @ c # rest) = None"
  using assms by (simp add: re_match_def LOG_LINE_PATTERN_def del: rmatch_loops)

lemma stamp_cls:
  assumes d: "isdigit h1" "isdigit h2" "isdigit m1" "isdigit m2" "isdigit s1" "isdigit s2"
  shows "list_all (in_cls (OneOf '':0123456789'')) ([h1, h2] @ '':'' @ [m1, m2] @ '':'' @ [s1, s2])"
  using d isdigit_in_set by simp

lemma ann_tail:
  assumes w: "isspace w" and c: "isword c" and r: "LF \<notin> set rest"
  shows "rmatch [One (Lit CHR '']''), Open 1, Rep 1 Space, Close 1, Plus Word, Star Dot, Eol]
                inp ('']'' @ [w] @ c # rest) m g \<noteq> None"
    using w c r rmatch_Plus_not_None[of Word c "[Star Dot, Eol]" inp rest]
    by (simp add: rmatch_rest_of_line del: rmatch_loops)

lemma announcement_match:
  assumes d: "isdigit h1" "isdigit h2" "isdigit m1" "isdigit m2" "isdigit s1" "isdigit s2"
    and w: "isspace w" and c: "isword c" and r: "LF \<notin> set rest"
  shows "re_match ANNOUNCEMENT_LINE_PATTERN
           (''['' @ [h1, h2] @ '':'' @ [m1, m2] @ '':'' @ [s1, s2] @ '']'' @ [w] @ c # rest) \<noteq> None"
proof -
  let ?stamp = "[h1, h2] @ '':'' @ [m1, m2] @ '':'' @ [s1, s2]"
  let ?tail = "'']'' @ [w] @ c # rest"
  let ?line = "''['' @ ?stamp @ ?tail"
  let ?cls = "OneOf '':0123456789''"
  let ?is = "[One (Lit CHR '']''), Open 1, Rep 1 Space, Close 1, Plus Word, Star Dot, Eol]"
  have "rmatch (Plus ?cls # ?is) ?line (?stamp @ ?tail) m g = rmatch ?is ?line ?tail m g" for m g
  proof (rule rmatch_Plus_stop)
    show "?stamp \<noteq> []" by simp
    show "list_all (in_cls ?cls) ?stamp" by (rule stamp_cls[OF d])
    show "?tail = [] \<or> \<not> in_cls ?cls (hd ?tail)" by simp
    show "rmatch ?is ?line (x # xs) m g = None" if "in_cls ?cls x" for x xs
    proof -
      from that have "x \<noteq> CHR '']''" by auto
      then show ?thesis by simp
    qed
  qed
  then have "re_match ANNOUNCEMENT_LINE_PATTERN ?line
               = rmatch ?is ?line ?tail (\<lambda>_. []) (\<lambda>_. None)"
    by (simp add: re_match_def ANNOUNCEMENT_LINE_PATTERN_def del: rmatch_loops)
  with ann_tail[OF w c r] show ?thesis by simp
qed

section \<open>What a successful match says about the input\<close>

lemma rmatch_One_SomeE:
  assumes "rmatch (One c # is) inp s m g = Some r"
  obtains x xs where "s = x # xs" "in_cls c x" "rmatch is inp xs m g = Some r"
  using assms by (cases s) (auto split: if_splits)

lemma rmatch_Rep_SomeE:
  assumes "rmatch (Rep n c # is) inp s m g = Some r"
  obtains u v where "s = u @ v" "length u = n" "list_all (in_cls c) u" "rmatch is inp v m g = Some r"
proof -
  from assms have "n \<le> length s" "list_all (in_cls c) (take n s)" "rmatch is inp (drop n s) m g = Some r"
    by (auto split: if_splits)
  moreover have "s = take n s @ drop n s" by simp
  moreover have "length (take n s) = n" using \<open>n \<le> length s\<close> by simp
  ultimately show ?thesis using that by blast
qed

lemma rmatch_Eol_SomeE:
  assumes "rmatch (Eol # is) inp s m g = Some r"
  obtains "s = [] \<or> s = [LF]" "rmatch is inp s m g = Some r"
  using assms by (auto split: if_splits)

lemma rmatch_Star_SomeE:
  assumes "rmatch (Star c # is) inp s m g = Some r"
  obtains u v where "s = u @ v" "list_all (in_cls c) u" "rmatch is inp v m g = Some r"
  using assms greedy_inv[of "in_cls c" "\<lambda>s'. rmatch is inp s' m g" s r] by auto

lemma rmatch_Plus_SomeE:
  assumes "rmatch (Plus c # is) inp s m g = Some r"
  obtains u v where "s = u @ v" "u \<noteq> []" "list_all (in_cls c) u" "rmatch is inp v m g = Some r"
proof -
  from assms obtain x xs where s: "s = x # xs" "in_cls c x"
    and gr: "greedy (in_cls c) (\<lambda>s'. rmatch is inp s' m g) xs = Some r"
    by (cases s) (auto split: if_splits)
  from greedy_inv[OF gr] obtain u v where "xs = u @ v" "list_all (in_cls c) u"
    "rmatch is inp v m g = Some r" by blast
  then have "s = (x # u) @ v" "x # u \<noteq> []" "list_all (in_cls c) (x # u)" using s by auto
  then show ?thesis using that \<open>rmatch is inp v m g = Some r\<close> by blast
qed

lemma rmatch_LazyPlus_SomeE:
  assumes "rmatch (LazyPlus c # is) inp s m g = Some r"
  obtains u v where "s = u @ v" "u \<noteq> []" "list_all (in_cls c) u" "rmatch is inp v m g = Some r"
proof -
  from assms obtain x xs where s: "s = x # xs" "in_cls c x"
    and gr: "lazy (in_cls c) (\<lambda>s'. rmatch is inp s' m g) xs = Some r"
    by (cases s) (auto split: if_splits)
  from lazy_inv[OF gr] obtain u v where "xs = u @ v" "list_all (in_cls c) u"
    "rmatch is inp v m g = Some r" by blast
  then have "s = (x # u) @ v" "x # u \<noteq> []" "list_all (in_cls c) (x # u)" using s by auto
  then show ?thesis using that \<open>rmatch is inp v m g = Some r\<close> by blast
qed

text \<open>The part of the file-name pattern after the name group.\<close>

lemma date_suffix_inv:
  assumes "rmatch [One (Lit CHR ''-''), Open 2, Rep 4 Digit, One (Lit CHR ''-''), Rep 2 Digit,
                   One (Lit CHR ''-''), Rep 2 Digit, Close 2,
                   One (Lit CHR ''.''), One (Lit CHR ''l''), One (Lit CHR ''o''), One (Lit CHR ''g''), Eol]
             inp t m g = Some r"
  shows "\<exists>y mo d e. t = ''-'' @ y @ ''-'' @ mo @ ''-'' @ d @ ''.log'' @ e
           \<and> length y = 4 \<and> length mo = 2 \<and> length d = 2
           \<and> list_all isdigit y \<and> list_all isdigit mo \<and> list_all isdigit d
           \<and> (e = [] \<or> e = [LF]) \<and> r = g(2 \<mapsto> y @ ''-'' @ mo @ ''-'' @ d)"
proof -
  from assms obtain t1 where t: "t = CHR ''-'' # t1"
    and 1: "rmatch [Rep 4 Digit, One (Lit CHR ''-''), Rep 2 Digit,
                   One (Lit CHR ''-''), Rep 2 Digit, Close 2,
                   One (Lit CHR ''.''), One (Lit CHR ''l''), One (Lit CHR ''o''), One (Lit CHR ''g''), Eol]
             inp t1 (m(2 := t1)) g = Some r"
    by (elim rmatch_One_SomeE) auto
  from 1 obtain y t2 where y: "t1 = y @ t2" "length y = 4" "list_all isdigit y"
    and 2: "rmatch [One (Lit CHR ''-''), Rep 2 Digit,
                   One (Lit CHR ''-''), Rep 2 Digit, Close 2,
                   One (Lit CHR ''.''), One (Lit CHR ''l''), One (Lit CHR ''o''), One (Lit CHR ''g''), Eol]
             inp t2 (m(2 := t1)) g = Some r"
    by (elim rmatch_Rep_SomeE) auto
  from 2 obtain t3 where t2: "t2 = CHR ''-'' # t3"
    and 3: "rmatch [Rep 2 Digit, One (Lit CHR ''-''), Rep 2 Digit, Close 2,
                   One (Lit CHR ''.''), One (Lit CHR ''l''), One (Lit CHR ''o''), One (Lit CHR ''g''), Eol]
             inp t3 (m(2 := t1)) g = Some r"
    by (elim rmatch_One_SomeE) auto
  from 3 obtain mo t4 where mo: "t3 = mo @ t4" "length mo = 2" "list_all isdigit mo"
    and 4: "rmatch [One (Lit CHR ''-''), Rep 2 Digit, Close 2,
                   One (Lit CHR ''.''), One (Lit CHR ''l''), One (Lit CHR ''o''), One (Lit CHR ''g''), Eol]
             inp t4 (m(2 := t1)) g = Some r"
    by (elim rmatch_Rep_SomeE) auto
  from 4 obtain t5 where t4: "t4 = CHR ''-'' # t5"
    and 5: "rmatch [Rep 2 Digit, Close 2,
                   One (Lit CHR ''.''), One (Lit CHR ''l''), One (Lit CHR ''o''), One (Lit CHR ''g''), Eol]
             inp t5 (m(2 := t1)) g = Some r"
    by (elim rmatch_One_SomeE) auto
  from 5 obtain d t6 where d: "t5 = d @ t6" "length d = 2" "list_all isdigit d"
    and 6: "rmatch [Close 2,
                   One (Lit CHR ''.''), One (Lit CHR ''l''), One (Lit CHR ''o''), One (Lit CHR ''g''), Eol]
             inp t6 (m(2 := t1)) g = Some r"
    by (elim rmatch_Rep_SomeE) auto
  have cap: "take (length t1 - length t6) t1 = y @ ''-'' @ mo @ ''-'' @ d"
    using y mo d t2 t4 by simp
  from 6 have 7: "rmatch [One (Lit CHR ''.''), One (Lit CHR ''l''), One (Lit CHR ''o''), One (Lit CHR ''g''), Eol]
             inp t6 (m(2 := t1)) (g(2 \<mapsto> y @ ''-'' @ mo @ ''-'' @ d)) = Some r"
    using cap by simp
  from 7 obtain e where e: "t6 = ''.log'' @ e"
    and 8: "rmatch [Eol] inp e (m(2 := t1)) (g(2 \<mapsto> y @ ''-'' @ mo @ ''-'' @ d)) = Some r"
    by (elim rmatch_One_SomeE) auto
  from 8 have "e = [] \<or> e = [LF]" "r = g(2 \<mapsto> y @ ''-'' @ mo @ ''-'' @ d)"
    by (auto split: if_splits)
  with t y t2 mo t4 d e show ?thesis by auto
qed

section \<open>The file-name pattern\<close>

lemma date_suffix_match:
  assumes "length y = 4" "length mo = 2" "length d = 2"
    "list_all isdigit y" "list_all isdigit mo" "list_all isdigit d"
    and "e = [] \<or> e = [LF]"
    and "m 2 = y @ ''-'' @ mo @ ''-'' @ d @ ''.log'' @ e"
  shows "rmatch [Rep 4 Digit, One (Lit CHR ''-''), Rep 2 Digit,
                   One (Lit CHR ''-''), Rep 2 Digit, Close 2,
                   One (Lit CHR ''.''), One (Lit CHR ''l''), One (Lit CHR ''o''), One (Lit CHR ''g''), Eol]
             inp (y @ ''-'' @ mo @ ''-'' @ d @ ''.log'' @ e) m g = Some (g(2 \<mapsto> y @ ''-'' @ mo @ ''-'' @ d))"
  using assms by auto

lemma file_name_match:
  assumes ch: "ch \<noteq> []" "LF \<notin> set ch"
    and len: "length y = 4" "length mo = 2" "length d = 2"
    and dig: "list_all isdigit y" "list_all isdigit mo" "list_all isdigit d"
    and e: "e = [] \<or> e = [LF]"
  shows "\<exists>g. re_match FILE_NAME_PATTERN (ch @ ''-'' @ y @ ''-'' @ mo @ ''-'' @ d @ ''.log'' @ e) = Some g
           \<and> g 1 = Some ch \<and> g 2 = Some (y @ ''-'' @ mo @ ''-'' @ d)"
proof -
  let ?suffix = "''-'' @ y @ ''-'' @ mo @ ''-'' @ d @ ''.log'' @ e"
  let ?inp = "ch @ ?suffix"
  let ?is = "[Close 1, One (Lit CHR ''-''), Open 2, Rep 4 Digit, One (Lit CHR ''-''), Rep 2 Digit,
                   One (Lit CHR ''-''), Rep 2 Digit, Close 2,
                   One (Lit CHR ''.''), One (Lit CHR ''l''), One (Lit CHR ''o''), One (Lit CHR ''g''), Eol]"
  let ?m = "(\<lambda>_. [])(1 := ?inp)"
  let ?k = "\<lambda>s'. rmatch ?is ?inp s' ?m (\<lambda>_. None)"
  from ch obtain x ch' where x: "ch = x # ch'" "x \<noteq> LF" "list_all (in_cls Dot) ch'"
    by (cases ch) (auto simp: list_all_iff)
  have ok: "?k ?suffix = Some (((\<lambda>_. None)(1 \<mapsto> ch))(2 \<mapsto> y @ ''-'' @ mo @ ''-'' @ d))"
    using date_suffix_match[OF len dig e] by simp
  have none: "?k (w @ ?suffix) = None" if "w \<noteq> []" for w
  proof (rule ccontr)
    assume "?k (w @ ?suffix) \<noteq> None"
    then obtain r where "rmatch (tl ?is) ?inp (w @ ?suffix) ?m
        ((\<lambda>_. None)(1 \<mapsto> take (length ?inp - length (w @ ?suffix)) ?inp)) = Some r"
      by auto
    from date_suffix_inv[OF this[simplified list.sel]] obtain y' mo' d' e' where
      eq: "w @ ?suffix = ''-'' @ y' @ ''-'' @ mo' @ ''-'' @ d' @ ''.log'' @ e'"
      and l: "length y' = 4" "length mo' = 2" "length d' = 2" and e': "e' = [] \<or> e' = [LF]"
      by blast
    from eq have "length (w @ ?suffix) = length (''-'' @ y' @ ''-'' @ mo' @ ''-'' @ d' @ ''.log'' @ e')"
      by (rule arg_cong)
    with l len e e' that have e1: "e' = [LF]" "e = []" and w1: "length w = 1" by auto
    from eq have "last (w @ ?suffix) = last (''-'' @ y' @ ''-'' @ mo' @ ''-'' @ d' @ ''.log'' @ e')"
      by (rule arg_cong)
    with e1 show False by (simp add: LF_def)
  qed
  have "lazy (in_cls Dot) ?k (ch' @ ?suffix) = Some (((\<lambda>_. None)(1 \<mapsto> ch))(2 \<mapsto> y @ ''-'' @ mo @ ''-'' @ d))"
    by (rule lazy_skip[OF x(3) none ok])
  then have "rmatch (LazyPlus Dot # ?is) ?inp ?inp ?m (\<lambda>_. None)
               = Some (((\<lambda>_. None)(1 \<mapsto> ch))(2 \<mapsto> y @ ''-'' @ mo @ ''-'' @ d))"
    using x by (simp del: rmatch.simps(4,5,10))
  then show ?thesis
    by (simp add: re_match_def FILE_NAME_PATTERN_def del: rmatch_loops rmatch.simps(4,5,10))
qed

section \<open>Dates\<close>

lemma isdigit_not_dash: "isdigit c \<Longrightarrow> c \<noteq> CHR ''-''"
  by (auto simp: isdigit_def)

lemma isdigit_not_blank: "isdigit c \<Longrightarrow> c \<noteq> CHR '' ''"
  by (auto simp: isdigit_def)

lemma days_in_month_le: "days_in_month y m \<le> 31"
  by (simp add: days_in_month_def)

lemma int_of_simps [simp]:
  "int_of [] = 0" "int_of [a] = digit_val a" "int_of [a, b] = 10 * digit_val a + digit_val b"
  by (simp_all add: int_of_def)

lemma two_or_one_digits:
  assumes "isdigit a" "isdigit b"
  shows "two_or_one ok2 ok1 (a # b # r)
         = (if ok2 (int_of [a, b]) then Some (int_of [a, b], r)
            else if ok1 (digit_val a) then Some (digit_val a, b # r) else None)"
  using assms by (simp add: two_or_one_def)

lemma month_field:
  assumes "isdigit m1" "isdigit m2"
  shows "strptime_fields (Dir dm # FLit CHR ''-'' # fs) (m1 # m2 # CHR ''-'' # r) v
         = (if 1 \<le> int_of [m1, m2] \<and> int_of [m1, m2] \<le> 12
            then strptime_fields fs r (v(dm \<mapsto> int_of [m1, m2])) else None)"
  using assms isdigit_not_dash[OF assms(2)] by (simp add: two_or_one_digits)

lemma day_field:
  assumes "isdigit d1" "isdigit d2"
  shows "strptime_fields [Dir dd] [d1, d2] v
         = (if 1 \<le> int_of [d1, d2] \<and> int_of [d1, d2] \<le> 31
            then Some (v(dd \<mapsto> int_of [d1, d2])) else None)"
  using assms isdigit_not_blank[OF assms(1)] by (simp add: two_or_one_digits)

lemma year_field:
  assumes "isdigit y1" "isdigit y2" "isdigit y3" "isdigit y4"
  shows "strptime_fields (Dir dY # FLit CHR ''-'' # fs) (y1 # y2 # y3 # y4 # CHR ''-'' # r) v
         = strptime_fields fs r (v(dY \<mapsto> int_of [y1, y2, y3, y4]))"
  using assms by simp

lemma strptime_Ymd_chars:
  assumes "isdigit y1" "isdigit y2" "isdigit y3" "isdigit y4" "isdigit m1" "isdigit m2"
    "isdigit d1" "isdigit d2"
  shows "strptime ([y1, y2, y3, y4] @ ''-'' @ [m1, m2] @ ''-'' @ [d1, d2]) fmt_Ymd
         = (if valid_date (int_of [y1, y2, y3, y4]) (int_of [m1, m2]) (int_of [d1, d2])
            then Inr (DateTime (int_of [y1, y2, y3, y4]) (int_of [m1, m2]) (int_of [d1, d2]) 0 0 0)
            else Inl ValueError)"
proof -
  let ?y = "int_of [y1, y2, y3, y4]" and ?m = "int_of [m1, m2]" and ?d = "int_of [d1, d2]"
  have le: "days_in_month ?y ?m \<le> 31"
    by (rule days_in_month_le)
  have fields: "strptime_fields fmt_Ymd ([y1, y2, y3, y4] @ ''-'' @ [m1, m2] @ ''-'' @ [d1, d2]) (\<lambda>_. None)
      = (if 1 \<le> ?m \<and> ?m \<le> 12 \<and> 1 \<le> ?d \<and> ?d \<le> 31
         then Some ((\<lambda>_. None)(dY \<mapsto> ?y, dm \<mapsto> ?m, dd \<mapsto> ?d)) else None)"
    unfolding fmt_Ymd_def
    using year_field[OF assms(1-4)] month_field[OF assms(5,6)] day_field[OF assms(7,8)]
    by (simp del: strptime_fields.simps int_of_simps)
  show ?thesis
  proof (cases "valid_date ?y ?m ?d")
    case True
    then have "1 \<le> ?m \<and> ?m \<le> 12 \<and> 1 \<le> ?d \<and> ?d \<le> 31"
      using le unfolding valid_date_def by linarith
    with True fields show ?thesis
      by (simp add: strptime_def default_def valid_time_def del: int_of_simps)
  next
    case False
    with fields show ?thesis
      by (simp add: strptime_def default_def del: int_of_simps)
  qed
qed

lemma length4E:
  assumes "length (xs :: 'a list) = 4"
  obtains a b c d where "xs = [a, b, c, d]"
  using assms by (auto simp: length_Suc_conv numeral_eq_Suc)

lemma length2E:
  assumes "length (xs :: 'a list) = 2"
  obtains a b where "xs = [a, b]"
  using assms by (auto simp: length_Suc_conv numeral_eq_Suc)

lemma strptime_Ymd:
  assumes "length y = 4" "length mo = 2" "length d = 2"
    "list_all isdigit y" "list_all isdigit mo" "list_all isdigit d"
  shows "strptime (y @ ''-'' @ mo @ ''-'' @ d) fmt_Ymd
         = (if valid_date (int_of y) (int_of mo) (int_of d)
            then Inr (DateTime (int_of y) (int_of mo) (int_of d) 0 0 0)
            else Inl ValueError)"
proof -
  from assms(1) obtain y1 y2 y3 y4 where y: "y = [y1, y2, y3, y4]" by (rule length4E)
  from assms(2) obtain m1 m2 where mo: "mo = [m1, m2]" by (rule length2E)
  from assms(3) obtain d1 d2 where d: "d = [d1, d2]" by (rule length2E)
  show ?thesis
    unfolding y mo d using assms(4-6) strptime_Ymd_chars[of y1 y2 y3 y4 m1 m2 d1 d2]
    unfolding y mo d by simp
qed

lemma digit_char_val: "isdigit c \<Longrightarrow> digit_char (digit_val c) = c"
  by (simp add: isdigit_def digit_char_def digit_val_def Let_def)

lemma digit_val_less: "isdigit c \<Longrightarrow> digit_val c < 10"
  by (auto simp: isdigit_def digit_val_def Let_def)

lemma digit_char_0: "digit_char 0 = CHR ''0''"
  by code_simp

lemma int_of_snoc: "int_of (ds @ [c]) = 10 * int_of ds + digit_val c"
  by (simp add: int_of_def)

lemma str_nat_digit: "v < 10 \<Longrightarrow> str_nat v = [digit_char v]"
  by (subst str_nat.simps) simp

lemma str_nat_step: "v < 10 \<Longrightarrow> 0 < n \<Longrightarrow> str_nat (10 * n + v) = str_nat n @ [digit_char v]"
  by (subst str_nat.simps) simp

lemma zfill_str_nat:
  assumes "ds \<noteq> []" and "list_all isdigit ds"
  shows "zfill (length ds) (str_nat (int_of ds)) = ds"
  using assms
proof (induction ds rule: rev_nonempty_induct)
  case (single c)
  then show ?case
    by (simp add: str_nat_digit digit_val_less digit_char_val zfill_def)
next
  case (snoc c ds)
  then have c: "isdigit c" and ih: "zfill (length ds) (str_nat (int_of ds)) = ds" by simp_all
  show ?case
  proof (cases "int_of ds = 0")
    case True
    with ih have "zfill (length ds) [digit_char 0] = ds" by (simp add: str_nat_digit)
    then have "replicate (length ds - 1) CHR ''0'' @ [CHR ''0''] = ds"
      by (simp add: zfill_def digit_char_0)
    then have "replicate (length ds) CHR ''0'' = ds"
      using snoc.hyps by (cases ds) (simp_all add: replicate_append_same)
    then show ?thesis using True c
      by (simp add: int_of_snoc str_nat_digit digit_val_less digit_char_val zfill_def)
  next
    case False
    then have "str_nat (int_of (ds @ [c])) = str_nat (int_of ds) @ [c]"
      using c by (simp add: int_of_snoc str_nat_step digit_val_less digit_char_val)
    then show ?thesis using ih by (simp add: zfill_def)
  qed
qed

lemma isoformat_digits:
  assumes "length y = 4" "length mo = 2" "length d = 2"
    "list_all isdigit y" "list_all isdigit mo" "list_all isdigit d"
  shows "isoformat (Date (int_of y) (int_of mo) (int_of d)) = y @ ''-'' @ mo @ ''-'' @ d"
proof -
  have "zfill 4 (str_nat (int_of y)) = y" "zfill 2 (str_nat (int_of mo)) = mo"
    "zfill 2 (str_nat (int_of d)) = d"
    using zfill_str_nat[of y] zfill_str_nat[of mo] zfill_str_nat[of d] assms by fastforce+
  then show ?thesis by (simp add: isoformat_def)
qed

section \<open>The file-name parser\<close>

lemma file_name_inv:
  assumes "re_match FILE_NAME_PATTERN s = Some g"
  shows "\<exists>ch y mo d e. s = ch @ ''-'' @ y @ ''-'' @ mo @ ''-'' @ d @ ''.log'' @ e
           \<and> ch \<noteq> [] \<and> LF \<notin> set ch
           \<and> length y = 4 \<and> length mo = 2 \<and> length d = 2
           \<and> list_all isdigit y \<and> list_all isdigit mo \<and> list_all isdigit d
           \<and> (e = [] \<or> e = [LF]) \<and> g 1 = Some ch \<and> g 2 = Some (y @ ''-'' @ mo @ ''-'' @ d)"
proof -
  let ?is = "[One (Lit CHR ''-''), Open 2, Rep 4 Digit, One (Lit CHR ''-''), Rep 2 Digit,
                   One (Lit CHR ''-''), Rep 2 Digit, Close 2,
                   One (Lit CHR ''.''), One (Lit CHR ''l''), One (Lit CHR ''o''), One (Lit CHR ''g''), Eol]"
  from assms have "rmatch (LazyPlus Dot # Close 1 # ?is) s s ((\<lambda>_. [])(1 := s)) (\<lambda>_. None) = Some g"
    by (simp add: re_match_def FILE_NAME_PATTERN_def del: rmatch_loops rmatch.simps(4,5,10))
  then obtain ch t where s: "s = ch @ t" "ch \<noteq> []" "list_all (in_cls Dot) ch"
    and 1: "rmatch (Close 1 # ?is) s t ((\<lambda>_. [])(1 := s)) (\<lambda>_. None) = Some g"
    by (rule rmatch_LazyPlus_SomeE)
  from 1 s(1) have "rmatch ?is s t ((\<lambda>_. [])(1 := s)) ((\<lambda>_. None)(1 \<mapsto> ch)) = Some g"
    by (simp del: rmatch_loops rmatch.simps(4,5))
  from date_suffix_inv[OF this] obtain y mo d e where
    "t = ''-'' @ y @ ''-'' @ mo @ ''-'' @ d @ ''.log'' @ e"
    "length y = 4" "length mo = 2" "length d = 2"
    "list_all isdigit y" "list_all isdigit mo" "list_all isdigit d"
    "e = [] \<or> e = [LF]" "g = ((\<lambda>_. None)(1 \<mapsto> ch))(2 \<mapsto> y @ ''-'' @ mo @ ''-'' @ d)"
    by blast
  moreover have "LF \<notin> set ch" using s(3) by (auto simp: list_all_iff)
  ultimately show ?thesis using s by auto
qed

lemma file_name_components_shape:
  assumes "basename path = ch @ ''-'' @ y @ ''-'' @ mo @ ''-'' @ d @ ''.log'' @ e"
    and "ch \<noteq> []" "LF \<notin> set ch"
    and "length y = 4" "length mo = 2" "length d = 2"
    and "list_all isdigit y" "list_all isdigit mo" "list_all isdigit d"
    and "e = [] \<or> e = [LF]"
  shows "file_name_components path
         = (if valid_date (int_of y) (int_of mo) (int_of d)
            then Inr (ch, Date (int_of y) (int_of mo) (int_of d)) else Inl ValueError)"
proof -
  from file_name_match[OF assms(2-10)] obtain g where
    "re_match FILE_NAME_PATTERN (basename path) = Some g" "g 1 = Some ch"
    "g 2 = Some (y @ ''-'' @ mo @ ''-'' @ d)"
    unfolding assms(1) by blast
  then show ?thesis
    using strptime_Ymd[OF assms(4-9)]
    by (simp add: file_name_components_def date_of_def)
qed

lemma file_name_components_Inr:
  assumes "file_name_components path = Inr (ch, dt)"
  shows "\<exists>e. basename path = ch @ ''-'' @ isoformat dt @ ''.log'' @ e \<and> (e = [] \<or> e = [LF])
           \<and> ch \<noteq> [] \<and> LF \<notin> set ch \<and> valid_date (year dt) (month dt) (day dt)"
proof -
  from assms obtain g where g: "re_match FILE_NAME_PATTERN (basename path) = Some g"
    by (auto simp: file_name_components_def split: option.splits)
  from file_name_inv[OF g] obtain ch' y mo d e where
    sh: "basename path = ch' @ ''-'' @ y @ ''-'' @ mo @ ''-'' @ d @ ''.log'' @ e"
      "ch' \<noteq> []" "LF \<notin> set ch'" "length y = 4" "length mo = 2" "length d = 2"
      "list_all isdigit y" "list_all isdigit mo" "list_all isdigit d" "e = [] \<or> e = [LF]"
    by blast
  from file_name_components_shape[OF sh] assms
  have "valid_date (int_of y) (int_of mo) (int_of d)" "ch = ch'"
    "dt = Date (int_of y) (int_of mo) (int_of d)"
    by (auto split: if_splits)
  moreover from this isoformat_digits[OF sh(4-9)] have "isoformat dt = y @ ''-'' @ mo @ ''-'' @ d"
    by simp
  ultimately show ?thesis using sh by auto
qed

lemma file_name_components_no_match:
  assumes "file_name_components path = Inl FileNameFormatException"
  shows "re_match FILE_NAME_PATTERN (basename path) = None"
  using assms
  by (auto simp: file_name_components_def strptime_def Let_def
      split: option.splits sum.splits if_splits)

section \<open>Records of the message pattern\<close>

lemma log_line_inv:
  assumes "re_match LOG_LINE_PATTERN s = Some g"
  shows "\<exists>pre u w b e. s = pre @ u @ '':'' @ [w] @ b @ e
           \<and> u \<noteq> [] \<and> list_all isword u \<and> isspace w \<and> LF \<notin> set b \<and> (e = [] \<or> e = [LF])
           \<and> g 2 = Some u \<and> g 3 = Some b"
proof -
  let ?tail = "[Open 2, Plus Word, Close 2, One (Lit CHR '':''), One Space, Open 3, Star Dot, Close 3, Eol]"
  let ?p1 = "[Rep 2 Digit, One (Lit CHR '':''), Rep 2 Digit, One (Lit CHR '':''), Rep 2 Digit, Close 1,
      One (Lit CHR '']''), Rep 2 Space]"
  from assms have a0: "rmatch (One (Lit CHR ''['') # Open 1 # ?p1 @ ?tail) s s (\<lambda>_. []) (\<lambda>_. None) = Some g"
    by (simp add: re_match_def LOG_LINE_PATTERN_def del: rmatch_loops rmatch.simps(4,5,9,10))
  from a0[unfolded append.simps list.sel] obtain s1 where s1: "s = CHR ''['' # s1"
    and a1: "rmatch (?p1 @ ?tail) s s1 ((\<lambda>_. [])(1 := s1)) (\<lambda>_. None) = Some g"
    by (rule rmatch_One_SomeE) (auto simp del: rmatch_loops rmatch.simps(4,5,10))
  let ?m1 = "(\<lambda>_. [])(1 := s1)"
  from a1[unfolded append.simps list.sel] obtain h s2 where s2: "s1 = h @ s2"
    and a2: "rmatch (tl ?p1 @ ?tail) s s2 ?m1 (\<lambda>_. None) = Some g"
    by (rule rmatch_Rep_SomeE[where n = 2 and c = Digit]) (auto simp del: rmatch_loops rmatch.simps(4,5,10))
  from a2[unfolded append.simps list.sel] obtain c3 s3 where s3: "s2 = c3 # s3"
    and a3: "rmatch (tl (tl ?p1) @ ?tail) s s3 ?m1 (\<lambda>_. None) = Some g"
    by (rule rmatch_One_SomeE) (auto simp del: rmatch_loops rmatch.simps(4,5,10))
  from a3[unfolded append.simps list.sel] obtain mi s4 where s4: "s3 = mi @ s4"
    and a4: "rmatch (tl (tl (tl ?p1)) @ ?tail) s s4 ?m1 (\<lambda>_. None) = Some g"
    by (rule rmatch_Rep_SomeE[where n = 2 and c = Digit]) (auto simp del: rmatch_loops rmatch.simps(4,5,10))
  from a4[unfolded append.simps list.sel] obtain c5 s5 where s5: "s4 = c5 # s5"
    and a5: "rmatch (tl (tl (tl (tl ?p1))) @ ?tail) s s5 ?m1 (\<lambda>_. None) = Some g"
    by (rule rmatch_One_SomeE) (auto simp del: rmatch_loops rmatch.simps(4,5,10))
  from a5[unfolded append.simps list.sel] obtain se s6 where s6: "s5 = se @ s6"
    and a6: "rmatch (Close 1 # One (Lit CHR '']'') # Rep 2 Space # ?tail) s s6 ?m1 (\<lambda>_. None) = Some g"
    by (rule rmatch_Rep_SomeE[where n = 2 and c = Digit]) (auto simp del: rmatch_loops rmatch.simps(4,5,10))
  define g1 :: groups where "g1 = (\<lambda>_. None)(1 \<mapsto> take (length (?m1 1) - length s6) (?m1 1))"
  from a6 have a7: "rmatch (One (Lit CHR '']'') # Rep 2 Space # ?tail) s s6 ?m1 g1 = Some g"
    by (simp add: g1_def del: rmatch_loops rmatch.simps(4,5,9))
  from a7 obtain c8 s8 where s8: "s6 = c8 # s8"
    and a8: "rmatch (Rep 2 Space # ?tail) s s8 ?m1 g1 = Some g"
    by (rule rmatch_One_SomeE) (auto simp del: rmatch_loops rmatch.simps(4,5,9,10))
  from a8 obtain ws s9 where s9: "s8 = ws @ s9"
    and a9: "rmatch ?tail s s9 ?m1 g1 = Some g"
    by (rule rmatch_Rep_SomeE[where n = 2 and c = Space]) (auto simp del: rmatch_loops rmatch.simps(4,5,9,10))
  let ?m2 = "?m1(2 := s9)"
  from a9 have "rmatch (Plus Word # Close 2 # One (Lit CHR '':'') # One Space # Open 3 # Star Dot # Close 3 # [Eol])
                  s s9 ?m2 g1 = Some g"
    by (simp del: rmatch_loops rmatch.simps(4,5,10))
  then obtain u s10 where u: "s9 = u @ s10" "u \<noteq> []" "list_all isword u"
    and a10: "rmatch (Close 2 # One (Lit CHR '':'') # One Space # Open 3 # Star Dot # Close 3 # [Eol])
                  s s10 ?m2 g1 = Some g"
    by (rule rmatch_Plus_SomeE) (auto simp del: rmatch_loops rmatch.simps(4,5,9,10))
  let ?g2 = "g1(2 \<mapsto> u)"
  from a10 u(1) have a11: "rmatch (One (Lit CHR '':'') # One Space # Open 3 # Star Dot # Close 3 # [Eol])
                  s s10 ?m2 ?g2 = Some g"
    by (simp del: rmatch_loops rmatch.simps(4,5,9))
  from a11 obtain s11 where s11: "s10 = CHR '':'' # s11"
    and a12: "rmatch (One Space # Open 3 # Star Dot # Close 3 # [Eol]) s s11 ?m2 ?g2 = Some g"
    by (rule rmatch_One_SomeE) (auto simp del: rmatch_loops rmatch.simps(4,5,9,10))
  from a12 obtain w s12 where s12: "s11 = w # s12" "isspace w"
    and a13: "rmatch (Open 3 # Star Dot # Close 3 # [Eol]) s s12 ?m2 ?g2 = Some g"
    by (rule rmatch_One_SomeE) (auto simp del: rmatch_loops rmatch.simps(4,5,9,10))
  let ?m3 = "?m2(3 := s12)"
  from a13 have "rmatch (Star Dot # Close 3 # [Eol]) s s12 ?m3 ?g2 = Some g"
    by (simp del: rmatch_loops rmatch.simps(4,5,10))
  then obtain b e where b: "s12 = b @ e" "list_all (in_cls Dot) b"
    and a14: "rmatch (Close 3 # [Eol]) s e ?m3 ?g2 = Some g"
    by (rule rmatch_Star_SomeE)
  from a14 b(1) have e: "e = [] \<or> e = [LF]" and g: "g = ?g2(3 \<mapsto> b)"
    by (auto split: if_splits)
  have "LF \<notin> set b" using b(2) by (auto simp: list_all_iff)
  moreover have "s = (CHR ''['' # h @ c3 # mi @ c5 # se @ c8 # ws) @ u @ '':'' @ [w] @ b @ e"
    using s1 s2 s3 s4 s5 s6 s8 s9 u(1) s11 s12(1) b(1) by simp
  moreover have "g 2 = Some u" "g 3 = Some b" using g by simp_all
  ultimately show ?thesis using u(2,3) s12(2) e by blast
qed

lemma parse_line_Inr:
  assumes "parse_line date s = Inr r"
  shows "\<exists>pre w e. s = pre @ user r @ '':'' @ [w] @ msg r @ e
           \<and> user r \<noteq> [] \<and> list_all isword (user r) \<and> isspace w \<and> LF \<notin> set (msg r)
           \<and> (e = [] \<or> e = [LF])"
proof -
  from assms obtain g where g: "re_match LOG_LINE_PATTERN s = Some g"
    by (auto simp: parse_line_def split: option.splits if_splits)
  from log_line_inv[OF g] obtain pre u w b e where
    sh: "s = pre @ u @ '':'' @ [w] @ b @ e" "u \<noteq> []" "list_all isword u" "isspace w"
      "LF \<notin> set b" "e = [] \<or> e = [LF]" "g 2 = Some u" "g 3 = Some b"
    by blast
  from assms g sh(7,8) have "user r = u" "msg r = b"
    by (auto simp: parse_line_def split: option.splits sum.splits)
  with sh show ?thesis by blast
qed

lemma parse_line_not_file_name_error: "parse_line date s \<noteq> Inl FileNameFormatException"
  by (auto simp: parse_line_def strptime_def Let_def split: option.splits sum.splits if_splits)

lemma rstrip_last: "rstrip s \<noteq> [] \<Longrightarrow> \<not> isspace (last (rstrip s))"
proof -
  assume a: "rstrip s \<noteq> []"
  then have "dropWhile isspace (rev s) \<noteq> []" by (simp add: rstrip_def)
  then have "\<not> isspace (hd (dropWhile isspace (rev s)))" by (rule hd_dropWhile)
  then show ?thesis using a by (simp add: rstrip_def last_rev)
qed

lemma rstrip_append_space: "list_all isspace ws \<Longrightarrow> rstrip (s @ ws) = rstrip s"
  by (induction ws rule: rev_induct) (simp_all add: rstrip_def)

lemma rstrip_id: "s = [] \<or> \<not> isspace (last s) \<Longrightarrow> rstrip s = s"
  by (cases s rule: rev_cases) (simp_all add: rstrip_def)

lemma parse_line_rstrip_msg:
  assumes "parse_line date (rstrip line) = Inr r"
  shows "msg r \<noteq> [] \<and> \<not> isspace (last (msg r))"
proof -
  from parse_line_Inr[OF assms] obtain pre w e where
    sh: "rstrip line = pre @ user r @ '':'' @ [w] @ msg r @ e" "isspace w" "e = [] \<or> e = [LF]"
    by blast
  then have ne: "rstrip line \<noteq> []" by simp
  from rstrip_last[OF ne] have nl: "\<not> isspace (last (pre @ user r @ '':'' @ [w] @ msg r @ e))"
    using sh(1) by simp
  from nl sh(3) have e: "e = []" by (auto simp: isspace_LF)
  with nl sh(2) show ?thesis by (cases "msg r = []") auto
qed

lemma parse_lines_rows:
  "parse_lines date path ls rows out = (out', Inr rs)
     \<Longrightarrow> rs = rows @ concat (map (line_records date) ls)"
proof (induction ls arbitrary: rows out)
  case Nil
  then show ?case by simp
next
  case (Cons l ls)
  show ?case
  proof (cases "parse_line date (rstrip l)")
    case (Inr r)
    with Cons.prems have "parse_lines date path ls (rows @ [r]) out = (out', Inr rs)" by simp
    from Cons.IH[OF this] Inr show ?thesis by (simp add: line_records_def)
  next
    case (Inl e)
    show ?thesis
    proof (cases e)
      case (ParseLineException x)
      with Inl Cons.prems have "parse_lines date path ls rows (out @ [(Stdout, path @ '': '' @ x)]) = (out', Inr rs)"
        by simp
      from Cons.IH[OF this] Inl show ?thesis by (simp add: line_records_def)
    next
      case (NonMessageLineException x)
      with Inl Cons.prems have "parse_lines date path ls rows out = (out', Inr rs)" by simp
      from Cons.IH[OF this] Inl show ?thesis by (simp add: line_records_def)
    qed (use Inl Cons.prems in auto)
  qed
qed

lemma parse_lines_not_file_name_error:
  "parse_lines date path ls rows out \<noteq> (out', Inl FileNameFormatException)"
proof (induction ls arbitrary: rows out)
  case Nil
  then show ?case by simp
next
  case (Cons l ls)
  show ?case
  proof (cases "parse_line date (rstrip l)")
    case (Inr r)
    then show ?thesis using Cons.IH by simp
  next
    case (Inl e)
    then show ?thesis using Cons.IH parse_line_not_file_name_error[of date "rstrip l"]
      by (cases e) auto
  qed
qed

lemma parse_log_rows:
  assumes "parse_log fs path = (out, Inr rows)"
  shows "rows = file_records fs path"
  using assms
  by (auto simp: parse_log_def file_records_def split: sum.splits opened.splits prod.splits
      dest: parse_lines_rows)

lemma parse_log_rejected:
  assumes "parse_log fs path = (out, Inl FileNameFormatException)"
  shows "file_records fs path = []"
  using assms
  by (auto simp: parse_log_def file_records_def parse_lines_not_file_name_error
      split: sum.splits opened.splits prod.splits)

lemma line_records_row:
  assumes "r \<in> set (line_records date line)"
  shows "parse_line date (rstrip line) = Inr r"
  using assms by (auto simp: line_records_def split: sum.splits)

lemma file_records_row:
  assumes "r \<in> set (file_records fs path)"
  shows "\<exists>date line. parse_line date (rstrip line) = Inr r"
  using assms line_records_row
  by (auto simp: file_records_def split: sum.splits opened.splits prod.splits) blast

section \<open>Directories\<close>

lemma parse_files_rows:
  "parse_files fs files frames out = (out', Inr frames')
     \<Longrightarrow> concat frames' = concat frames @ concat (map (file_records fs) files)"
proof (induction files arbitrary: frames out)
  case Nil
  then show ?case by simp
next
  case (Cons f files)
  obtain o1 res where pl: "parse_log fs f = (o1, res)" by (cases "parse_log fs f")
  show ?case
  proof (cases res)
    case (Inr df)
    with pl Cons.prems have "parse_files fs files (frames @ [df]) (out @ o1) = (out', Inr frames')"
      by simp
    from Cons.IH[OF this] parse_log_rows[OF pl[unfolded Inr]] show ?thesis by simp
  next
    case (Inl e)
    show ?thesis
    proof (cases "e = FileNameFormatException")
      case True
      with pl Inl Cons.prems obtain o2 where
        "parse_files fs files frames o2 = (out', Inr frames')" by simp
      from Cons.IH[OF this] parse_log_rejected[OF pl[unfolded Inl True]] show ?thesis by simp
    next
      case False
      with pl Inl Cons.prems show ?thesis by (cases e) auto
    qed
  qed
qed

lemma append_le_append: "(p @ a \<le> p @ b) = (a \<le> (b :: string))"
  by (induction p) simp_all

lemma insort_map_append:
  "insort (p @ x) (map ((@) p) ys) = map ((@) p) (insort x (ys :: string list))"
  by (induction ys) (simp_all add: append_le_append)

lemma sort_map_append:
  "sort (map ((@) p) (xs :: string list)) = map ((@) p) (sort xs)"
  by (induction xs) (simp_all add: insort_map_append)


lemma join_prefix: "CHR ''/'' \<notin> set f \<Longrightarrow> join path f = dir_prefix path @ f"
  by (cases f) (auto simp: join_def dir_prefix_def)

lemma sorted_files_by_name:
  assumes "list_all (\<lambda>f. CHR ''/'' \<notin> set f) names"
  shows "sort (filter P (map (join path) names))
         = map (join path) (sort (filter (\<lambda>f. P (join path f)) names))"
proof -
  let ?ns = "filter (\<lambda>f. P (join path f)) names"
  have slash: "list_all (\<lambda>f. CHR ''/'' \<notin> set f) ?ns" using assms by (simp add: list_all_iff)
  have "filter P (map (join path) names) = map (join path) ?ns"
    by (simp add: filter_map comp_def)
  also have "\<dots> = map ((@) (dir_prefix path)) ?ns"
    using slash by (simp add: list_all_iff join_prefix)
  finally have "sort (filter P (map (join path) names)) = map ((@) (dir_prefix path)) (sort ?ns)"
    by (simp add: sort_map_append)
  also have "\<dots> = map (join path) (sort ?ns)"
    using slash by (simp add: list_all_iff join_prefix)
  finally show ?thesis .
qed

lemma parse_from_dir_rows:
  assumes "parse_from_dir fs path = (out, Inr rows)"
  shows "\<exists>names. listdir fs path = Some names
           \<and> rows = concat (map (file_records fs) (sort (filter (isfile fs) (map (join path) names))))"
proof -
  from assms obtain names where n: "listdir fs path = Some names"
    by (auto simp: parse_from_dir_def split: option.splits)
  let ?files = "sort (filter (isfile fs) (map (join path) names))"
  obtain o1 res where pf: "parse_files fs ?files [] [] = (o1, res)"
    by (cases "parse_files fs ?files [] []")
  from assms n pf obtain frames where fr: "res = Inr frames" "pd_concat frames = Inr rows"
    by (cases res) (auto simp: parse_from_dir_def Let_def)
  from fr(2) have "rows = concat frames" by (auto simp: pd_concat_def split: if_splits)
  with parse_files_rows[OF pf[unfolded fr(1)]] n show ?thesis by simp
qed

lemma parse_line_user:
  assumes "parse_line date s = Inr r"
  shows "user r \<noteq> [] \<and> list_all isword (user r) \<and> list_all (\<lambda>c. \<not> isspace c) (user r)"
proof -
  from parse_line_Inr[OF assms] have "user r \<noteq> []" "list_all isword (user r)" by auto
  then show ?thesis using isword_not_isspace by (auto simp: list_all_iff)
qed

lemma run_two_days:
  "parse_from_dir fs_two_days ''logs''
     = ([(Stderr, ''File '' @ [CHR 0x27] @ ''logs/readme.txt'' @ [CHR 0x27]
                   @ '' does not conform to naming scheme. Skipping.'')],
        Inr [row_alice, row_bob, row_carol])"
  by code_simp

lemma run_day_one:
  "parse_log fs_two_days ''logs/a-2023-01-01.log'' = ([], Inr [row_alice, row_bob])"
  by code_simp

section \<open>Claims about the line classifier\<close>

text \<open>
  C3, as the specification states it: a line with a bracketed timestamp and exactly one
  space is a non-message whatever follows the space.  The announcement pattern asks for
  a word character after the space, so the line below is neither a message nor a
  non-message: \<open>parse_line\<close> raises \<open>ParseLineException\<close>.
\<close>

theorem single_space_line_malformed:
  "parse_line (Date 2023 5 13) ''[17:20:11] -- stream offline --''
     = Inl (ParseLineException (''Failed to parse line: '' @ [CHR 0x27]
              @ ''[17:20:11] -- stream offline --'' @ [CHR 0x27]))"
  by code_simp

text \<open>
  C3, amended: a line \<open>[HH:MM:SS]\<close>, one whitespace character, a word character and any
  rest without a newline is a non-message: \<open>parse_line\<close> raises
  \<open>NonMessageLineException\<close>, never a record and never \<open>ParseLineException\<close>.
\<close>

theorem announcement_is_non_message:
  assumes "isdigit h1" "isdigit h2" "isdigit m1" "isdigit m2" "isdigit s1" "isdigit s2"
    and "isspace w" and "isword c" and "LF \<notin> set rest"
  shows "parse_line date
           (''['' @ [h1, h2] @ '':'' @ [m1, m2] @ '':'' @ [s1, s2] @ '']'' @ [w] @ c # rest)
         = Inl (NonMessageLineException
             (''['' @ [h1, h2] @ '':'' @ [m1, m2] @ '':'' @ [s1, s2] @ '']'' @ [w] @ c # rest))"
proof -
  have "\<not> isspace c" using assms(8) by (rule isword_not_isspace)
  then show ?thesis
    using announcement_match[OF assms] log_line_no_match_single_space
    by (simp add: parse_line_def)
qed

theorem announcement_is_non_message_witness:
  "isword CHR ''A'' \<and> isspace CHR '' '' \<and> LF \<notin> set ''nnouncement''
   \<and> parse_line (Date 2023 5 13) ''[17:20:11] Announcement''
       = Inl (NonMessageLineException ''[17:20:11] Announcement'')"
  using announcement_is_non_message[of "CHR ''1''" "CHR ''7''" "CHR ''2''" "CHR ''0''" "CHR ''1''"
      "CHR ''1''" "CHR '' ''" "CHR ''A''" "''nnouncement''" "Date 2023 5 13"]
  by (simp add: isdigit_def isspace_def isword_def LF_def)

text \<open>
  C5: a line \<open>[HH:MM:SS]\<close>, two spaces, a user name of word characters, a colon, a space
  and a text, with a valid time of day, is parsed to the record of the date combined with
  that time, the user name and the text unchanged.  (A line holds no newline.)
\<close>

theorem parse_line_message:
  assumes "isdigit h1" "isdigit h2" "isdigit m1" "isdigit m2" "isdigit s1" "isdigit s2"
    and "valid_time (int_of [h1, h2]) (int_of [m1, m2]) (int_of [s1, s2])"
    and "uname \<noteq> []" "list_all isword uname"
    and "LF \<notin> set body"
  shows "parse_line date
           (''['' @ [h1, h2] @ '':'' @ [m1, m2] @ '':'' @ [s1, s2] @ '']  '' @ uname @ '': '' @ body)
         = Inr \<lparr>ts = combine date (Time (int_of [h1, h2]) (int_of [m1, m2]) (int_of [s1, s2])),
                user = uname, msg = body\<rparr>"
proof -
  have sp: "isspace CHR '' ''" by (simp add: isspace_def)
  from assms(7) have v: "int_of [h1, h2] \<le> 23" "int_of [m1, m2] \<le> 59" "int_of [s1, s2] \<le> 59"
    by (simp_all add: valid_time_def)
  show ?thesis
    using parse_line_message_general[OF assms(1-6) v sp sp sp assms(8-10), of date] by simp
qed

theorem parse_line_message_witness:
  "valid_time (int_of ''03'') (int_of ''25'') (int_of ''34'') \<and> list_all isword ''user23''
   \<and> parse_line (Date 2023 5 13) ''[03:25:34]  user23: lol''
       = Inr \<lparr>ts = DateTime 2023 5 13 3 25 34, user = ''user23'', msg = ''lol''\<rparr>"
  using parse_line_message[of "CHR ''0''" "CHR ''3''" "CHR ''2''" "CHR ''5''" "CHR ''3''" "CHR ''4''"
      "''user23''" "''lol''" "Date 2023 5 13"]
  by (simp add: isdigit_def isword_def valid_time_def int_of_def digit_val_def combine_def LF_def)

text \<open>
  C8: the two characters after the bracket and the character after the colon may be any
  whitespace characters (tabs, for instance): the line is still parsed to a record.
\<close>

theorem parse_line_any_whitespace:
  assumes "isdigit h1" "isdigit h2" "isdigit m1" "isdigit m2" "isdigit s1" "isdigit s2"
    and "valid_time (int_of [h1, h2]) (int_of [m1, m2]) (int_of [s1, s2])"
    and "isspace w1" "isspace w2" "isspace w3"
    and "uname \<noteq> []" "list_all isword uname"
    and "LF \<notin> set body"
  shows "parse_line date
           (''['' @ [h1, h2] @ '':'' @ [m1, m2] @ '':'' @ [s1, s2] @ '']'' @ [w1, w2]
              @ uname @ '':'' @ [w3] @ body)
         = Inr \<lparr>ts = combine date (Time (int_of [h1, h2]) (int_of [m1, m2]) (int_of [s1, s2])),
                user = uname, msg = body\<rparr>"
proof -
  from assms(7) have v: "int_of [h1, h2] \<le> 23" "int_of [m1, m2] \<le> 59" "int_of [s1, s2] \<le> 59"
    by (simp_all add: valid_time_def)
  show ?thesis
    by (rule parse_line_message_general[OF assms(1-6) v assms(8-13)])
qed

theorem parse_line_any_whitespace_witness:
  "isspace (CHR 0x09) \<and> isspace (CHR 0xA0)
   \<and> parse_line (Date 2023 5 13)
        (''[03:25:34]'' @ [CHR 0x09, CHR 0x09] @ ''user23:'' @ [CHR 0xA0] @ ''lol'')
       = Inr \<lparr>ts = DateTime 2023 5 13 3 25 34, user = ''user23'', msg = ''lol''\<rparr>"
  using parse_line_any_whitespace[of "CHR ''0''" "CHR ''3''" "CHR ''2''" "CHR ''5''" "CHR ''3''"
      "CHR ''4''" "CHR 0x09" "CHR 0x09" "CHR 0xA0" "''user23''" "''lol''" "Date 2023 5 13"]
  by (simp add: isdigit_def isword_def isspace_def valid_time_def int_of_def digit_val_def
      combine_def LF_def)

text \<open>
  C10: the \<open>user\<close> of every record that \<open>_parse_line\<close>, \<open>parse_log\<close> or \<open>parse_from_dir\<close>
  returns is not empty and holds word characters only, hence no whitespace.
\<close>

theorem user_field_is_word:
  "(parse_line date line = Inr r \<longrightarrow>
      user r \<noteq> [] \<and> list_all isword (user r) \<and> list_all (\<lambda>c. \<not> isspace c) (user r))
   \<and> (parse_log fs path = (out, Inr rows) \<longrightarrow>
      list_all (\<lambda>r. user r \<noteq> [] \<and> list_all isword (user r)
                  \<and> list_all (\<lambda>c. \<not> isspace c) (user r)) rows)
   \<and> (parse_from_dir fs dir = (out', Inr rows') \<longrightarrow>
      list_all (\<lambda>r. user r \<noteq> [] \<and> list_all isword (user r)
                  \<and> list_all (\<lambda>c. \<not> isspace c) (user r)) rows')"
proof -
  let ?ok = "\<lambda>r. user r \<noteq> [] \<and> list_all isword (user r) \<and> list_all (\<lambda>c. \<not> isspace c) (user r)"
  have oneline: "?ok r" if "parse_line date line = Inr r"
    using that by (rule parse_line_user)
  have logfile: "list_all ?ok rows" if a: "parse_log fs path = (out, Inr rows)"
  proof -
    have "?ok x" if "x \<in> set rows" for x
    proof -
      from that parse_log_rows[OF a] have "x \<in> set (file_records fs path)" by simp
      from file_records_row[OF this] obtain d l where "parse_line d (rstrip l) = Inr x" by blast
      then show ?thesis by (rule parse_line_user)
    qed
    then show ?thesis by (simp add: list_all_iff)
  qed
  have directory: "list_all ?ok rows'" if a: "parse_from_dir fs dir = (out', Inr rows')"
  proof -
    have "?ok x" if "x \<in> set rows'" for x
    proof -
      from parse_from_dir_rows[OF a] that obtain f where "x \<in> set (file_records fs f)" by auto
      from file_records_row[OF this] obtain d l where "parse_line d (rstrip l) = Inr x" by blast
      then show ?thesis by (rule parse_line_user)
    qed
    then show ?thesis by (simp add: list_all_iff)
  qed
  from oneline logfile directory show ?thesis by blast
qed

theorem user_field_is_word_witness:
  "parse_line (Date 2023 5 13) ''[03:25:34]  user23: lol''
     = Inr \<lparr>ts = DateTime 2023 5 13 3 25 34, user = ''user23'', msg = ''lol''\<rparr>
   \<and> list_all isword ''user23''
   \<and> parse_log fs_two_days ''logs/a-2023-01-01.log'' = ([], Inr [row_alice, row_bob])
   \<and> list_all isword (user row_alice) \<and> list_all isword (user row_bob)
   \<and> parse_from_dir fs_two_days ''logs''
     = ([(Stderr, ''File '' @ [CHR 0x27] @ ''logs/readme.txt'' @ [CHR 0x27]
                   @ '' does not conform to naming scheme. Skipping.'')],
        Inr [row_alice, row_bob, row_carol])
   \<and> list_all isword (user row_carol)"
proof -
  have l: "parse_line (Date 2023 5 13) ''[03:25:34]  user23: lol''
     = Inr \<lparr>ts = DateTime 2023 5 13 3 25 34, user = ''user23'', msg = ''lol''\<rparr>"
    by code_simp
  have f: "parse_log fs_two_days ''logs/a-2023-01-01.log'' = ([], Inr [row_alice, row_bob])"
    by (rule run_day_one)
  have d: "parse_from_dir fs_two_days ''logs''
     = ([(Stderr, ''File '' @ [CHR 0x27] @ ''logs/readme.txt'' @ [CHR 0x27]
                   @ '' does not conform to naming scheme. Skipping.'')],
        Inr [row_alice, row_bob, row_carol])"
    by (rule run_two_days)
  note t = user_field_is_word[of "Date 2023 5 13" "''[03:25:34]  user23: lol''"
      "\<lparr>ts = DateTime 2023 5 13 3 25 34, user = ''user23'', msg = ''lol''\<rparr>"
      fs_two_days "''logs/a-2023-01-01.log''" "[]" "[row_alice, row_bob]"
      "''logs''" "[(Stderr, ''File '' @ [CHR 0x27] @ ''logs/readme.txt'' @ [CHR 0x27]
                   @ '' does not conform to naming scheme. Skipping.'')]"
      "[row_alice, row_bob, row_carol]"]
  from t l have "list_all isword ''user23''" by simp
  moreover from t f have "list_all isword (user row_alice)" "list_all isword (user row_bob)" by simp_all
  moreover from t d have "list_all isword (user row_carol)" by simp
  ultimately show ?thesis using l f d by blast
qed

section \<open>Claims about the file-name parser\<close>

text \<open>
  C4: a file name that matches the pattern (a name without a newline, a dash, four, two
  and two digits between dashes, \<open>.log\<close>, and what \<open>$\<close> allows after it) but whose digits
  are not a calendar date makes \<open>_file_name_components\<close> raise \<open>ValueError\<close> from
  \<open>strptime\<close>: not \<open>FileNameFormatException\<close>, and no pair is returned.
\<close>

theorem file_name_invalid_date:
  assumes "basename path = ch @ ''-'' @ y @ ''-'' @ mo @ ''-'' @ d @ ''.log'' @ e"
    and "ch \<noteq> []" "LF \<notin> set ch"
    and "length y = 4" "length mo = 2" "length d = 2"
    and "list_all isdigit y" "list_all isdigit mo" "list_all isdigit d"
    and "e = [] \<or> e = [LF]"
    and "\<not> valid_date (int_of y) (int_of mo) (int_of d)"
  shows "file_name_components path = Inl ValueError"
  using file_name_components_shape[OF assms(1-10)] assms(11) by simp

theorem file_name_invalid_date_witness:
  "basename ''logs/summit1g-2023-13-11.log'' = ''summit1g-2023-13-11.log''
   \<and> \<not> valid_date (int_of ''2023'') (int_of ''13'') (int_of ''11'')
   \<and> file_name_components ''logs/summit1g-2023-13-11.log'' = Inl ValueError
   \<and> Inl ValueError \<noteq> (Inl FileNameFormatException :: exn + (string \<times> date))"
proof -
  have b: "basename ''logs/summit1g-2023-13-11.log''
           = ''summit1g'' @ ''-'' @ ''2023'' @ ''-'' @ ''13'' @ ''-'' @ ''11'' @ ''.log'' @ []"
    by (simp add: basename_def)
  have v: "\<not> valid_date (int_of ''2023'') (int_of ''13'') (int_of ''11'')"
    by (simp add: valid_date_def int_of_def digit_val_def)
  have "file_name_components ''logs/summit1g-2023-13-11.log'' = Inl ValueError"
    by (rule file_name_invalid_date[OF b _ _ _ _ _ _ _ _ _ v])
       (simp_all add: isdigit_def LF_def)
  with b v show ?thesis by simp
qed

text \<open>
  C6: a name that does not end in \<open>.log\<close> but in \<open>.log\<close> and a newline is accepted, since
  \<open>$\<close> also matches before a newline that ends the string.
\<close>

theorem file_name_trailing_newline_accepted:
  "file_name_components (''summit1g-2023-05-11.log'' @ [LF]) = Inr (''summit1g'', Date 2023 5 11)"
  by code_simp

text \<open>
  The round trip of the file-name parser: a name \<open>channel-YYYY-MM-DD.log\<close> with a channel
  that is not empty and holds no newline, and with a valid date, is parsed to the channel
  and the date, and \<open>isoformat\<close> prints the date back as the digits of the name.  The
  channel may itself hold dashes and dates: the last fifteen characters are the suffix.
\<close>

theorem file_name_round_trip:
  assumes "basename path = ch @ ''-'' @ y @ ''-'' @ mo @ ''-'' @ d @ ''.log''"
    and "ch \<noteq> []" "LF \<notin> set ch"
    and "length y = 4" "length mo = 2" "length d = 2"
    and "list_all isdigit y" "list_all isdigit mo" "list_all isdigit d"
    and "valid_date (int_of y) (int_of mo) (int_of d)"
  shows "file_name_components path = Inr (ch, Date (int_of y) (int_of mo) (int_of d))
         \<and> isoformat (Date (int_of y) (int_of mo) (int_of d)) = y @ ''-'' @ mo @ ''-'' @ d"
proof -
  have "basename path = ch @ ''-'' @ y @ ''-'' @ mo @ ''-'' @ d @ ''.log'' @ []"
    using assms(1) by simp
  from file_name_components_shape[OF this assms(2-9)] assms(10) isoformat_digits[OF assms(4-9)]
  show ?thesis by simp
qed

theorem file_name_round_trip_witness:
  "basename ''logs/a-2023-05-11-2024-02-29.log'' = ''a-2023-05-11-2024-02-29.log''
   \<and> valid_date (int_of ''2024'') (int_of ''02'') (int_of ''29'')
   \<and> file_name_components ''logs/a-2023-05-11-2024-02-29.log''
       = Inr (''a-2023-05-11'', Date 2024 2 29)
   \<and> isoformat (Date 2024 2 29) = ''2024-02-29''"
proof -
  have b: "basename ''logs/a-2023-05-11-2024-02-29.log''
           = ''a-2023-05-11'' @ ''-'' @ ''2024'' @ ''-'' @ ''02'' @ ''-'' @ ''29'' @ ''.log''"
    by (simp add: basename_def)
  have n: "int_of ''2024'' = 2024" "int_of ''02'' = 2" "int_of ''29'' = 29"
    by (simp_all add: int_of_def digit_val_def)
  have v: "valid_date (int_of ''2024'') (int_of ''02'') (int_of ''29'')"
    unfolding n by (simp add: valid_date_def days_in_month_def is_leap_def)
  have "file_name_components ''logs/a-2023-05-11-2024-02-29.log''
          = Inr (''a-2023-05-11'', Date (int_of ''2024'') (int_of ''02'') (int_of ''29''))
        \<and> isoformat (Date (int_of ''2024'') (int_of ''02'') (int_of ''29''))
          = ''2024'' @ ''-'' @ ''02'' @ ''-'' @ ''29''"
    by (rule file_name_round_trip[OF b _ _ _ _ _ _ _ _ v]) (simp_all add: isdigit_def LF_def)
  with b v show ?thesis unfolding n by simp
qed

text \<open>
  The converse: a name that \<open>_file_name_components\<close> accepts is the channel, a dash, the
  date as \<open>isoformat\<close> prints it and \<open>.log\<close>, followed by nothing or by one newline; every
  other name raises an exception.
\<close>

theorem file_name_accepted_shape:
  assumes "file_name_components path = Inr (ch, dt)"
  shows "\<exists>e. basename path = ch @ ''-'' @ isoformat dt @ ''.log'' @ e \<and> (e = [] \<or> e = [LF])
           \<and> ch \<noteq> [] \<and> LF \<notin> set ch \<and> valid_date (year dt) (month dt) (day dt)"
  using assms by (rule file_name_components_Inr)

theorem file_name_accepted_shape_witness:
  "file_name_components ''logs/summit1g-2023-05-11.log'' = Inr (''summit1g'', Date 2023 5 11)
   \<and> (\<exists>e. basename ''logs/summit1g-2023-05-11.log''
            = ''summit1g'' @ ''-'' @ isoformat (Date 2023 5 11) @ ''.log'' @ e
          \<and> (e = [] \<or> e = [LF]))"
proof -
  have r: "file_name_components ''logs/summit1g-2023-05-11.log'' = Inr (''summit1g'', Date 2023 5 11)"
    by code_simp
  from file_name_accepted_shape[OF r] r show ?thesis by blast
qed

section \<open>Claims about files and directories\<close>

text \<open>
  C1: a message-shaped line with minute 61 makes \<open>strptime\<close> raise \<open>ValueError\<close>, which
  the loop of \<open>parse_log\<close> does not catch: the parse of the file \<open>logs/chan-2023-05-13.log\<close>
  ends with that exception, nothing is printed, and the records of the first and third
  line are lost.  The same exception ends \<open>parse_from_dir\<close>.
\<close>

theorem parse_log_invalid_time_aborts:
  "parse_log fs_bad_minute ''logs/chan-2023-05-13.log'' = ([], Inl ValueError)
   \<and> parse_from_dir fs_bad_minute ''logs'' = ([], Inl ValueError)"
  by code_simp

text \<open>
  C2: on an empty directory, and on a directory whose only file is rejected by its name,
  \<open>parse_from_dir\<close> reaches \<open>pandas.concat\<close> with no frame and ends with \<open>ValueError\<close>.
\<close>

theorem parse_from_dir_empty_raises:
  "parse_from_dir fs_empty_dir ''logs'' = ([], Inl ValueError)
   \<and> parse_from_dir fs_only_readme ''logs''
       = ([(Stderr, ''File '' @ [CHR 0x27] @ ''logs/readme.txt'' @ [CHR 0x27]
                     @ '' does not conform to naming scheme. Skipping.'')],
          Inl ValueError)"
  by code_simp

text \<open>
  C7: when \<open>parse_from_dir\<close> returns, its rows are the records of the regular files of the
  directory, file after file in ascending order of the file names, and within a file in
  the order of its lines (\<open>file_records\<close>); a file whose name is rejected adds nothing.
\<close>

theorem parse_from_dir_order:
  assumes "parse_from_dir fs path = (out, Inr rows)"
    and "listdir fs path = Some names"
    and "list_all (\<lambda>f. CHR ''/'' \<notin> set f) names"
  shows "rows = concat (map (file_records fs)
                  (map (join path) (sort (filter (\<lambda>f. isfile fs (join path f)) names))))"
  using parse_from_dir_rows[OF assms(1)] assms(2) sorted_files_by_name[OF assms(3)]
  by auto

theorem parse_from_dir_order_witness:
  "parse_from_dir fs_two_days ''logs''
     = ([(Stderr, ''File '' @ [CHR 0x27] @ ''logs/readme.txt'' @ [CHR 0x27]
                   @ '' does not conform to naming scheme. Skipping.'')],
        Inr [row_alice, row_bob, row_carol])
   \<and> sort (filter (\<lambda>f. isfile fs_two_days (join ''logs'' f))
              [''readme.txt'', ''a-2023-01-02.log'', ''old'', ''a-2023-01-01.log''])
       = [''a-2023-01-01.log'', ''a-2023-01-02.log'', ''readme.txt'']
   \<and> file_records fs_two_days ''logs/a-2023-01-01.log'' = [row_alice, row_bob]
   \<and> file_records fs_two_days ''logs/a-2023-01-02.log'' = [row_carol]
   \<and> file_records fs_two_days ''logs/readme.txt'' = []
   \<and> [row_alice, row_bob, row_carol]
       = concat (map (file_records fs_two_days)
           [''logs/a-2023-01-01.log'', ''logs/a-2023-01-02.log'', ''logs/readme.txt''])"
proof -
  let ?names = "[''readme.txt'', ''a-2023-01-02.log'', ''old'', ''a-2023-01-01.log'']"
  have run: "parse_from_dir fs_two_days ''logs''
     = ([(Stderr, ''File '' @ [CHR 0x27] @ ''logs/readme.txt'' @ [CHR 0x27]
                   @ '' does not conform to naming scheme. Skipping.'')],
        Inr [row_alice, row_bob, row_carol])"
    by (rule run_two_days)
  have ls: "listdir fs_two_days ''logs'' = Some ?names"
    by (simp add: fs_two_days_def)
  have slash: "list_all (\<lambda>f. CHR ''/'' \<notin> set f) ?names"
    by simp
  have srt: "sort (filter (\<lambda>f. isfile fs_two_days (join ''logs'' f)) ?names)
       = [''a-2023-01-01.log'', ''a-2023-01-02.log'', ''readme.txt'']"
    by code_simp
  have recs: "file_records fs_two_days ''logs/a-2023-01-01.log'' = [row_alice, row_bob]"
    "file_records fs_two_days ''logs/a-2023-01-02.log'' = [row_carol]"
    "file_records fs_two_days ''logs/readme.txt'' = []"
    by code_simp+
  from parse_from_dir_order[OF run ls slash]
  have "[row_alice, row_bob, row_carol]
       = concat (map (file_records fs_two_days)
           [''logs/a-2023-01-01.log'', ''logs/a-2023-01-02.log'', ''logs/readme.txt''])"
    unfolding srt by (simp add: join_def)
  with run srt recs show ?thesis by blast
qed

text \<open>
  C9, as the specification states it: every message line that ends in blanks or tabs is
  stored with that whitespace removed from \<open>msg\<close>.  The line below is a message for
  \<open>_parse_line\<close>, with a tab as its text; \<open>parse_log\<close> strips the tab and the blank after
  the colon, the rest matches no pattern, and the line is printed as malformed and no
  record is stored.
\<close>

theorem whitespace_only_message_not_stored:
  "parse_line (Date 2023 1 1) (''[09:00:00]  alice: '' @ [CHR 0x09])
     = Inr \<lparr>ts = DateTime 2023 1 1 9 0 0, user = ''alice'', msg = [CHR 0x09]\<rparr>
   \<and> parse_log fs_blank_message ''logs/a-2023-01-01.log''
     = ([(Stdout, ''logs/a-2023-01-01.log: Failed to parse line: '' @ [CHR 0x27]
                   @ ''[09:00:00]  alice:'' @ [CHR 0x27])],
        Inr [])"
  by code_simp

text \<open>
  C9, amended: \<open>parse_log\<close> strips every trailing whitespace character of a line before it
  classifies the line.  The \<open>msg\<close> of every row of a parsed file is not empty and does not
  end in a whitespace character; a line with any whitespace appended is treated as the
  line itself; and a message line whose text is not empty and does not end in whitespace,
  followed by any whitespace, stores the record with exactly that text.
\<close>

theorem parse_log_strips_trailing_whitespace:
  "(parse_log fs path = (out, Inr rows) \<longrightarrow>
      list_all (\<lambda>r. msg r \<noteq> [] \<and> \<not> isspace (last (msg r))) rows)
   \<and> (list_all isspace ws \<longrightarrow>
        parse_lines date p ((line @ ws) # ls) acc pr = parse_lines date p (line # ls) acc pr
      \<and> (isdigit h1 \<and> isdigit h2 \<and> isdigit m1 \<and> isdigit m2 \<and> isdigit s1 \<and> isdigit s2
          \<and> valid_time (int_of [h1, h2]) (int_of [m1, m2]) (int_of [s1, s2])
          \<and> isspace w1 \<and> isspace w2 \<and> isspace w3
          \<and> uname \<noteq> [] \<and> list_all isword uname
          \<and> body \<noteq> [] \<and> \<not> isspace (last body) \<and> LF \<notin> set body \<longrightarrow>
          parse_lines date p
            ((''['' @ [h1, h2] @ '':'' @ [m1, m2] @ '':'' @ [s1, s2] @ '']'' @ [w1, w2]
                @ uname @ '':'' @ [w3] @ body @ ws) # ls) acc pr
          = parse_lines date p ls
              (acc @ [\<lparr>ts = combine date (Time (int_of [h1, h2]) (int_of [m1, m2]) (int_of [s1, s2])),
                       user = uname, msg = body\<rparr>]) pr))"
proof -
  have rows_ok: "list_all (\<lambda>r. msg r \<noteq> [] \<and> \<not> isspace (last (msg r))) rows"
    if run: "parse_log fs path = (out, Inr rows)"
  proof -
    have "msg r \<noteq> [] \<and> \<not> isspace (last (msg r))" if "r \<in> set rows" for r
    proof -
      from that parse_log_rows[OF run] have "r \<in> set (file_records fs path)" by simp
      from file_records_row[OF this] obtain d l where "parse_line d (rstrip l) = Inr r" by blast
      then show ?thesis by (rule parse_line_rstrip_msg)
    qed
    then show ?thesis by (simp add: list_all_iff)
  qed
  have appended: "parse_lines date p ((line @ ws) # ls) acc pr = parse_lines date p (line # ls) acc pr"
    if "list_all isspace ws"
    by (simp add: rstrip_append_space[OF that])
  have stored: "parse_lines date p
            ((''['' @ [h1, h2] @ '':'' @ [m1, m2] @ '':'' @ [s1, s2] @ '']'' @ [w1, w2]
                @ uname @ '':'' @ [w3] @ body @ ws) # ls) acc pr
          = parse_lines date p ls
              (acc @ [\<lparr>ts = combine date (Time (int_of [h1, h2]) (int_of [m1, m2]) (int_of [s1, s2])),
                       user = uname, msg = body\<rparr>]) pr"
    if ws: "list_all isspace ws"
      and d: "isdigit h1" "isdigit h2" "isdigit m1" "isdigit m2" "isdigit s1" "isdigit s2"
      and v: "valid_time (int_of [h1, h2]) (int_of [m1, m2]) (int_of [s1, s2])"
      and w: "isspace w1" "isspace w2" "isspace w3"
      and u: "uname \<noteq> []" "list_all isword uname"
      and b: "body \<noteq> []" "\<not> isspace (last body)" "LF \<notin> set body"
  proof -
    let ?l = "''['' @ [h1, h2] @ '':'' @ [m1, m2] @ '':'' @ [s1, s2] @ '']'' @ [w1, w2]
                @ uname @ '':'' @ [w3] @ body"
    from v have v': "int_of [h1, h2] \<le> 23" "int_of [m1, m2] \<le> 59" "int_of [s1, s2] \<le> 59"
      by (simp_all add: valid_time_def)
    have "\<not> isspace (last ?l)" using b(1,2) by simp
    then have "rstrip ?l = ?l" by (intro rstrip_id disjI2)
    then have "rstrip (?l @ ws) = ?l" using rstrip_append_space[OF ws, of ?l] by simp
    moreover have "parse_line date ?l
        = Inr \<lparr>ts = combine date (Time (int_of [h1, h2]) (int_of [m1, m2]) (int_of [s1, s2])),
               user = uname, msg = body\<rparr>"
      by (rule parse_line_message_general[OF d v' w u b(3)])
    moreover have "''['' @ [h1, h2] @ '':'' @ [m1, m2] @ '':'' @ [s1, s2] @ '']'' @ [w1, w2]
                @ uname @ '':'' @ [w3] @ body @ ws = ?l @ ws"
      by simp
    ultimately show ?thesis
      by (simp only: parse_lines.simps sum.case)
  qed
  from rows_ok appended stored show ?thesis by blast
qed

theorem parse_log_strips_trailing_whitespace_witness:
  "parse_log fs_two_days ''logs/a-2023-01-01.log'' = ([], Inr [row_alice, row_bob])
   \<and> list_all isspace (''  '' @ [CHR 0x09, LF])
   \<and> msg row_alice = ''first day'' \<and> \<not> isspace (last (msg row_alice))
   \<and> \<not> isspace (last (msg row_bob))
   \<and> parse_lines (Date 2023 1 1) ''logs/a-2023-01-01.log''
        [''[09:00:02]  bob: hi'' @ ''  '' @ [CHR 0x09, LF]] [] []
      = parse_lines (Date 2023 1 1) ''logs/a-2023-01-01.log'' [''[09:00:02]  bob: hi''] [] []
   \<and> parse_lines (Date 2023 1 1) ''logs/a-2023-01-01.log''
        [''[09:00:00]  alice: first day'' @ ''  '' @ [CHR 0x09, LF]] [] []
      = ([], Inr [row_alice])"
proof -
  have run: "parse_log fs_two_days ''logs/a-2023-01-01.log'' = ([], Inr [row_alice, row_bob])"
    by (rule run_day_one)
  have ws: "list_all isspace (''  '' @ [CHR 0x09, LF])"
    by (simp add: isspace_def LF_def)
  have m: "msg row_alice = ''first day''" by (simp add: row_alice_def)
  have shape: "isdigit CHR ''0'' \<and> isdigit CHR ''9'' \<and> isdigit CHR ''0'' \<and> isdigit CHR ''0''
      \<and> isdigit CHR ''0'' \<and> isdigit CHR ''0''
      \<and> valid_time (int_of ''09'') (int_of ''00'') (int_of ''00'')
      \<and> isspace CHR '' '' \<and> isspace CHR '' '' \<and> isspace CHR '' ''
      \<and> ''alice'' \<noteq> [] \<and> list_all isword ''alice''
      \<and> ''first day'' \<noteq> [] \<and> \<not> isspace (last ''first day'') \<and> LF \<notin> set ''first day''"
    by (simp add: isdigit_def isspace_def isword_def valid_time_def int_of_def digit_val_def LF_def)
  note t = parse_log_strips_trailing_whitespace[of fs_two_days "''logs/a-2023-01-01.log''" "[]"
      "[row_alice, row_bob]" "''  '' @ [CHR 0x09, LF]" "Date 2023 1 1" "''logs/a-2023-01-01.log''"
      "''[09:00:02]  bob: hi''" "[]" "[]" "[]"
      "CHR ''0''" "CHR ''9''" "CHR ''0''" "CHR ''0''" "CHR ''0''" "CHR ''0''"
      "CHR '' ''" "CHR '' ''" "CHR '' ''" "''alice''" "''first day''"]
  from t run have r: "\<not> isspace (last (msg row_alice))" "\<not> isspace (last (msg row_bob))"
    by simp_all
  from t ws have a: "parse_lines (Date 2023 1 1) ''logs/a-2023-01-01.log''
        [''[09:00:02]  bob: hi'' @ ''  '' @ [CHR 0x09, LF]] [] []
      = parse_lines (Date 2023 1 1) ''logs/a-2023-01-01.log'' [''[09:00:02]  bob: hi''] [] []"
    by blast
  from t ws shape have "parse_lines (Date 2023 1 1) ''logs/a-2023-01-01.log''
        [(''['' @ ''09'' @ '':'' @ ''00'' @ '':'' @ ''00'' @ '']'' @ ''  ''
                @ ''alice'' @ '':'' @ '' '' @ ''first day'' @ ''  '' @ [CHR 0x09, LF])] [] []
      = parse_lines (Date 2023 1 1) ''logs/a-2023-01-01.log'' []
          ([] @ [\<lparr>ts = combine (Date 2023 1 1) (Time (int_of ''09'') (int_of ''00'') (int_of ''00'')),
                   user = ''alice'', msg = ''first day''\<rparr>]) []"
    by blast
  then have s: "parse_lines (Date 2023 1 1) ''logs/a-2023-01-01.log''
        [''[09:00:00]  alice: first day'' @ ''  '' @ [CHR 0x09, LF]] [] []
      = ([], Inr [row_alice])"
    by (simp add: row_alice_def combine_def int_of_def digit_val_def)
  from run ws m r a s show ?thesis by blast
qed

end
